theory Spec2Isabelle
  imports Main "HOL-Library.AList"
begin

section \<open>Python values and dictionaries\<close>

text \<open>
  The flattener receives what \<^verbatim>\<open>json.load\<close> returns: scalars, lists and dicts.
  A dict is kept as the list of its items in insertion order. Its keys are strings
  (objects read from JSON) or integers (what \<^verbatim>\<open>dict(enumerate(xs))\<close> builds).
  The flattener never inspects a scalar, so the scalar type is a parameter.
\<close>

datatype pykey = KInt int | KStr string

datatype 'a pyval =
    PScalar 'a
  | PDict "(pykey \<times> 'a pyval) list"
  | PList "'a pyval list"

datatype pyerror = AttributeError

type_synonym 'a flat = "(string \<times> 'a) list"

text \<open>
  \<^verbatim>\<open>str(n)\<close> for a non-negative integer: its decimal digits. \<open>digit_char\<close> is only
  applied to numbers below ten.
\<close>

definition digit_char :: "nat \<Rightarrow> char" where
  "digit_char d = ''0123456789'' ! d"

fun str_nat :: "nat \<Rightarrow> string" where
  "str_nat n = (if n < 10 then [digit_char n] else str_nat (n div 10) @ [digit_char (n mod 10)])"

declare str_nat.simps [simp del]

definition digit_chars :: "char set" where
  "digit_chars = set ''0123456789''"

definition str_int :: "int \<Rightarrow> string" where
  "str_int i = (if i < 0 then CHR ''-'' # str_nat (nat (- i)) else str_nat (nat i))"

text \<open>\<^verbatim>\<open>str(k)\<close> and \<^verbatim>\<open>isinstance(k, int)\<close> for a dict key.\<close>

fun str_key :: "pykey \<Rightarrow> string" where
  "str_key (KInt i) = str_int i"
| "str_key (KStr s) = s"

fun is_int_key :: "pykey \<Rightarrow> bool" where
  "is_int_key (KInt i) = True"
| "is_int_key (KStr s) = False"

text \<open>\<^verbatim>\<open>dict(enumerate(xs))\<close>: the items \<open>(0, x0), (1, x1), ...\<close> in order.\<close>

definition enumerate_dict :: "'a pyval list \<Rightarrow> (pykey \<times> 'a pyval) list" where
  "enumerate_dict xs = map (\<lambda>(i, x). (KInt (int i), x)) (List.enumerate 0 xs)"

text \<open>
  \<^verbatim>\<open>d[k] = v\<close> replaces the value of a key already present, where it stands, and
  appends a new key at the end; \<^verbatim>\<open>d.update(e)\<close> does so for every item of \<open>e\<close> in order.
\<close>

definition dict_setitem :: "('k \<times> 'v) list \<Rightarrow> 'k \<Rightarrow> 'v \<Rightarrow> ('k \<times> 'v) list" where
  "dict_setitem d k v = AList.update k v d"

definition dict_update :: "('k \<times> 'v) list \<Rightarrow> ('k \<times> 'v) list \<Rightarrow> ('k \<times> 'v) list" where
  "dict_update d e = fold (\<lambda>(k, v) acc. dict_setitem acc k v) e d"

section \<open>JsonFlattener\<close>

record JsonFlattener =
  dict_sep :: string
  list_sep :: string

definition default_flattener :: JsonFlattener where
  "default_flattener = \<lparr>dict_sep = ''.'', list_sep = ''__''\<rparr>"

text \<open>
  \<^verbatim>\<open>flatten(self, data, parent_key)\<close>. \<open>flatten_items\<close> is the \<^verbatim>\<open>for k, v in data.items()\<close>
  loop, with \<open>flat_data\<close> as the accumulator. A scalar under a non-empty parent key passes
  the guard of line 59 and fails at \<^verbatim>\<open>data.items()\<close>.
\<close>

definition cur_key_of :: "JsonFlattener \<Rightarrow> string \<Rightarrow> pykey \<Rightarrow> string" where
  "cur_key_of self parent_key k =
     (let sep = (if is_int_key k then list_sep self else dict_sep self)
      in if parent_key \<noteq> [] then parent_key @ sep @ str_key k else str_key k)"

function flatten :: "JsonFlattener \<Rightarrow> 'a pyval \<Rightarrow> string \<Rightarrow> pyerror + 'a flat"
  and flatten_items ::
    "JsonFlattener \<Rightarrow> (pykey \<times> 'a pyval) list \<Rightarrow> string \<Rightarrow> 'a flat \<Rightarrow> pyerror + 'a flat"
where
  "flatten self (PScalar x) parent_key =
     (if parent_key = [] then Inr [] else Inl AttributeError)"
| "flatten self (PList xs) parent_key = flatten_items self (enumerate_dict xs) parent_key []"
| "flatten self (PDict items) parent_key = flatten_items self items parent_key []"
| "flatten_items self [] parent_key flat_data = Inr flat_data"
| "flatten_items self ((k, v) # rest) parent_key flat_data =
     (let cur_key = cur_key_of self parent_key k in
      case v of
        PDict d \<Rightarrow>
          (case flatten self (PDict d) cur_key of
             Inl e \<Rightarrow> Inl e
           | Inr sub \<Rightarrow> flatten_items self rest parent_key (dict_update flat_data sub))
      | PList xs \<Rightarrow>
          (case flatten self (PDict (enumerate_dict xs)) cur_key of
             Inl e \<Rightarrow> Inl e
           | Inr sub \<Rightarrow> flatten_items self rest parent_key (dict_update flat_data sub))
      | PScalar x \<Rightarrow> flatten_items self rest parent_key (dict_setitem flat_data cur_key x))"
  by pat_completeness auto


text \<open>
  The recursion descends into the values of the items; a list is first rebuilt as a dict
  by \<open>enumerate_dict\<close>, so the measure counts a list one more than the dict made from it.
\<close>

fun pysize :: "'a pyval \<Rightarrow> nat" where
  "pysize (PScalar x) = 1"
| "pysize (PDict items) = 1 + sum_list (map (\<lambda>p. pysize (snd p) + 1) items)"
| "pysize (PList xs) = 2 + sum_list (map (\<lambda>x. pysize x + 1) xs)"

definition items_size :: "(pykey \<times> 'a pyval) list \<Rightarrow> nat" where
  "items_size items = sum_list (map (\<lambda>p. pysize (snd p) + 1) items)"

lemma items_size_enumerate_from:
  "items_size (map (\<lambda>(i, x). (KInt (int i), x)) (List.enumerate n xs))
   = sum_list (map (\<lambda>x. pysize x + 1) xs)"
  by (induction xs arbitrary: n) (auto simp: items_size_def)

lemma items_size_enumerate:
  "items_size (enumerate_dict xs) = sum_list (map (\<lambda>x. pysize x + 1) xs)"
  unfolding enumerate_dict_def by (rule items_size_enumerate_from)

lemma items_size_Cons: "items_size ((k, v) # rest) = pysize v + 1 + items_size rest"
  by (simp add: items_size_def)

lemma pysize_PDict: "pysize (PDict items) = 1 + items_size items"
  by (simp add: items_size_def)

termination flatten
  apply (relation "measure (\<lambda>x. case x of Inl (self, data, pk) \<Rightarrow> pysize data
                                     | Inr (self, items, pk, fd) \<Rightarrow> items_size items)")
  apply (simp_all add: items_size_enumerate items_size_Cons pysize_PDict del: pysize.simps(2))
  done

subsection \<open>Leaf paths of a tree\<close>

text \<open>
  A leaf path is the list of keys and indices from the root down to a scalar.
  \<open>leaf_paths\<close> lists the leaf paths of a tree with their scalars, in the order in which
  the loop of \<open>flatten\<close> meets them; \<open>path_key\<close> is the key the loop builds along a path,
  one \<open>cur_key_of\<close> step per segment.
\<close>

function leaf_paths :: "'a pyval \<Rightarrow> (pykey list \<times> 'a) list"
  and items_paths :: "(pykey \<times> 'a pyval) list \<Rightarrow> (pykey list \<times> 'a) list"
where
  "leaf_paths (PScalar x) = [([], x)]"
| "leaf_paths (PDict items) = items_paths items"
| "leaf_paths (PList xs) = items_paths (enumerate_dict xs)"
| "items_paths [] = []"
| "items_paths ((k, v) # rest) = map (\<lambda>(p, x). (k # p, x)) (leaf_paths v) @ items_paths rest"
  by pat_completeness auto

termination leaf_paths
  apply (relation "measure (\<lambda>x. case x of Inl data \<Rightarrow> pysize data
                                     | Inr items \<Rightarrow> items_size items)")
  apply (simp_all add: items_size_enumerate items_size_Cons pysize_PDict del: pysize.simps(2))
  done

fun path_key :: "JsonFlattener \<Rightarrow> string \<Rightarrow> pykey list \<Rightarrow> string" where
  "path_key self parent_key [] = parent_key"
| "path_key self parent_key (k # p) = path_key self (cur_key_of self parent_key k) p"

definition keyed_leaves :: "JsonFlattener \<Rightarrow> string \<Rightarrow> (pykey list \<times> 'a) list \<Rightarrow> 'a flat" where
  "keyed_leaves self parent_key ps = map (\<lambda>(p, x). (path_key self parent_key p, x)) ps"

text \<open>
  \<open>top_items\<close> is what the loop iterates over (line 63 turns a list into a dict; a bare
  scalar returns before the loop). \<open>flat_lookup\<close> reads a key of the mapping returned.
\<close>

fun top_items :: "'a pyval \<Rightarrow> (pykey \<times> 'a pyval) list" where
  "top_items (PScalar x) = []"
| "top_items (PDict items) = items"
| "top_items (PList xs) = enumerate_dict xs"

definition flat_lookup :: "pyerror + 'a flat \<Rightarrow> string \<Rightarrow> 'a option" where
  "flat_lookup r k = (case r of Inl e \<Rightarrow> None | Inr m \<Rightarrow> map_of m k)"

subsection \<open>Trees whose keys cannot be mistaken for separators\<close>

text \<open>
  \<open>plain_json S\<close> holds of a tree as \<^verbatim>\<open>json.load\<close> builds it (the keys of every dict are
  strings, and distinct) in which every object key is non-empty and has no character
  of \<open>S\<close>. \<open>seps_ok\<close> holds of a flattener whose separators are non-empty and contain no
  decimal digit. \<open>tree_leaves\<close> lists the leaf paths below the root.
\<close>

definition sep_chars :: "JsonFlattener \<Rightarrow> char set" where
  "sep_chars self = set (dict_sep self) \<union> set (list_sep self)"

definition seps_ok :: "JsonFlattener \<Rightarrow> bool" where
  "seps_ok self = (dict_sep self \<noteq> [] \<and> list_sep self \<noteq> [] \<and> sep_chars self \<inter> digit_chars = {})"

fun key_avoids :: "char set \<Rightarrow> pykey \<Rightarrow> bool" where
  "key_avoids S (KStr s) = (s \<noteq> [] \<and> set s \<inter> S = {})"
| "key_avoids S (KInt i) = False"

function plain_json :: "char set \<Rightarrow> 'a pyval \<Rightarrow> bool"
  and plain_items :: "char set \<Rightarrow> (pykey \<times> 'a pyval) list \<Rightarrow> bool"
where
  "plain_json S (PScalar x) = True"
| "plain_json S (PDict items) =
     (distinct (map fst items) \<and> list_all (key_avoids S) (map fst items) \<and> plain_items S items)"
| "plain_json S (PList xs) = plain_items S (enumerate_dict xs)"
| "plain_items S [] = True"
| "plain_items S ((k, v) # rest) = (plain_json S v \<and> plain_items S rest)"
  by pat_completeness auto

termination plain_json
  apply (relation "measure (\<lambda>x. case x of Inl (S, data) \<Rightarrow> pysize data
                                     | Inr (S, items) \<Rightarrow> items_size items)")
  apply (simp_all add: items_size_enumerate items_size_Cons pysize_PDict del: pysize.simps(2))
  done

definition tree_leaves :: "'a pyval \<Rightarrow> (pykey list \<times> 'a) list" where
  "tree_leaves data = items_paths (top_items data)"

text \<open>
  Notions for the proof: a segment free of separator characters, the items of one dict
  whose segments are distinct and of one kind, and a key that extends the key of an item
  by nothing or by something that starts with a separator character.
\<close>

definition seg_ok :: "char set \<Rightarrow> string \<Rightarrow> bool" where
  "seg_ok S s = (s \<noteq> [] \<and> set s \<inter> S = {})"

definition segs_ok :: "char set \<Rightarrow> (pykey \<times> 'a pyval) list \<Rightarrow> bool" where
  "segs_ok S items =
     (distinct (map (\<lambda>p. str_key (fst p)) items)
      \<and> (\<forall>p \<in> set items. seg_ok S (str_key (fst p)))
      \<and> ((\<forall>p \<in> set items. is_int_key (fst p)) \<or> (\<forall>p \<in> set items. \<not> is_int_key (fst p))))"

definition key_base :: "JsonFlattener \<Rightarrow> string \<Rightarrow> bool \<Rightarrow> string" where
  "key_base self parent_key isint =
     (if parent_key = [] then []
      else parent_key @ (if isint then list_sep self else dict_sep self))"

definition tail_ok :: "char set \<Rightarrow> string \<Rightarrow> bool" where
  "tail_ok S t = (t = [] \<or> hd t \<in> S)"

definition under :: "JsonFlattener \<Rightarrow> string \<Rightarrow> (pykey \<times> 'a pyval) list \<Rightarrow> string \<Rightarrow> bool" where
  "under self parent_key items key =
     (\<exists>p \<in> set items. \<exists>t. key = cur_key_of self parent_key (fst p) @ t \<and> tail_ok (sep_chars self) t)"

definition leaf_keys :: "JsonFlattener \<Rightarrow> string \<Rightarrow> (pykey \<times> 'a pyval) list \<Rightarrow> string list" where
  "leaf_keys self parent_key items = map fst (keyed_leaves self parent_key (items_paths items))"

section \<open>Files and exceptions\<close>

text \<open>
  Both tools read one file and write one file. A path is its string, and an exception is
  its class and its message.
  The file system gives the text of every existing file, and says which exception, if any,
  opening a path for reading (with its decoding) or for writing raises. Opening for writing
  creates or truncates the file and the text is then written whole; directories, and
  failures in the middle of a write, are outside this model.
\<close>

datatype exc_class =
    FileExistsError | FileNotFoundError | PermissionError
  | UnicodeDecodeError | UnicodeEncodeError | CsvError | JSONDecodeError
  | TypeError | ValueError | AttributeErr | RuntimeError | OSError

datatype pyexc = Exc exc_class string

type_synonym path = string

record filesystem =
  files :: "path \<rightharpoonup> string"
  read_fails :: "path \<Rightarrow> pyexc option"
  write_fails :: "path \<Rightarrow> pyexc option"

definition quoted :: "string \<Rightarrow> string" where
  "quoted s = [CHR 0x27] @ s @ [CHR 0x27]"

definition exists :: "filesystem \<Rightarrow> path \<Rightarrow> bool" where
  "exists fs p = (files fs p \<noteq> None)"

definition open_read :: "filesystem \<Rightarrow> path \<Rightarrow> pyexc + string" where
  "open_read fs p =
     (case read_fails fs p of
        Some e \<Rightarrow> Inl e
      | None \<Rightarrow>
          (case files fs p of
             None \<Rightarrow> Inl (Exc FileNotFoundError (''[Errno 2] No such file or directory: '' @ quoted p))
           | Some text \<Rightarrow> Inr text))"

definition open_write :: "filesystem \<Rightarrow> path \<Rightarrow> string \<Rightarrow> pyexc + filesystem" where
  "open_write fs p text =
     (case write_fails fs p of
        Some e \<Rightarrow> Inl e
      | None \<Rightarrow> Inr (fs\<lparr>files := (files fs)(p \<mapsto> text)\<rparr>))"

section \<open>csv.DictReader\<close>

text \<open>
  \<^verbatim>\<open>list(csv.DictReader(file))\<close> over the rows that \<^verbatim>\<open>csv.reader\<close> yields: the first row
  gives the field names, blank rows are skipped, and every other row becomes
  \<^verbatim>\<open>dict(zip(fieldnames, row))\<close>, with the surplus cells under the key \<^verbatim>\<open>None\<close> and
  \<^verbatim>\<open>None\<close> for the missing ones. \<^verbatim>\<open>csv.reader\<close> itself is a parameter of \<open>convert\<close>.
\<close>

datatype cell = Cell string | NoCell | RestCells "string list"

type_synonym record_row = "(string option \<times> cell) list"

definition dict_row :: "string list \<Rightarrow> string list \<Rightarrow> record_row" where
  "dict_row fieldnames row =
     (let d = dict_update [] (zip (map Some fieldnames) (map Cell row));
          lf = length fieldnames;
          lr = length row
      in if lf < lr then dict_setitem d None (RestCells (drop lf row))
         else if lf > lr then fold (\<lambda>key d. dict_setitem d (Some key) NoCell) (drop lr fieldnames) d
         else d)"

definition DictReader :: "string list list \<Rightarrow> record_row list" where
  "DictReader rows =
     (case rows of
        [] \<Rightarrow> []
      | fieldnames # rest \<Rightarrow> map (dict_row fieldnames) (filter (\<lambda>row. row \<noteq> []) rest))"

section \<open>Csv2JsonConverter\<close>

text \<open>
  \<open>convert_try\<close> is the body of the \<^verbatim>\<open>try\<close> block of \<^verbatim>\<open>convert\<close>, \<open>convert_except\<close> its
  \<^verbatim>\<open>except\<close> clauses in their order, and \<open>convert\<close> the method: the exception raised, if
  any, and the file system it leaves. \<^verbatim>\<open>json.dump(data, file, indent=2)\<close> is the parameter
  \<open>json_dump\<close>.
\<close>

record Csv2JsonConverter =
  source :: path
  destination :: path
  over_write :: bool

definition convert_try ::
  "(string \<Rightarrow> pyexc + string list list) \<Rightarrow> (record_row list \<Rightarrow> string) \<Rightarrow>
   Csv2JsonConverter \<Rightarrow> filesystem \<Rightarrow> pyexc + filesystem" where
  "convert_try reader json_dump self fs =
     (case open_read fs (source self) of
        Inl e \<Rightarrow> Inl e
      | Inr text \<Rightarrow>
          (case reader text of
             Inl e \<Rightarrow> Inl e
           | Inr rows \<Rightarrow>
               (let data = DictReader rows in
                if data = [] then
                  Inl (Exc ValueError (''The source file '' @ quoted (source self)
                                       @ '' is empty. Nothing to convert.''))
                else open_write fs (destination self) (json_dump data))))"

fun convert_except :: "Csv2JsonConverter \<Rightarrow> pyexc \<Rightarrow> pyexc" where
  "convert_except self (Exc PermissionError e) = Exc PermissionError (''Permission denied: '' @ e @ ''.'')"
| "convert_except self (Exc UnicodeDecodeError e) =
     Exc ValueError (''Could not decode file '' @ quoted (source self) @ '': '' @ e)"
| "convert_except self (Exc CsvError e) =
     Exc ValueError (''CSV format error in '' @ quoted (source self) @ '': '' @ e)"
| "convert_except self (Exc TypeError e) = Exc ValueError (''Could not serialize to JSON: '' @ e)"
| "convert_except self (Exc c e) = Exc RuntimeError (''Unexpected error during conversion: '' @ e)"

definition convert ::
  "(string \<Rightarrow> pyexc + string list list) \<Rightarrow> (record_row list \<Rightarrow> string) \<Rightarrow>
   Csv2JsonConverter \<Rightarrow> filesystem \<Rightarrow> pyexc option \<times> filesystem" where
  "convert reader json_dump self fs =
     (if exists fs (destination self) \<and> \<not> over_write self then
        (Some (Exc FileExistsError (''The destination file '' @ quoted (destination self)
           @ '' already exists. Use '' @ quoted ''--over-write'' @ '' to overwrite it.'')), fs)
      else
        (case convert_try reader json_dump self fs of
           Inl e \<Rightarrow> (Some (convert_except self e), fs)
         | Inr fs' \<Rightarrow> (None, fs')))"

section \<open>AppJsonFlattener\<close>

text \<open>
  \<^verbatim>\<open>Path.name\<close>, the directory part, \<^verbatim>\<open>Path.suffix\<close> and \<^verbatim>\<open>str.lower\<close> on a normalised
  path string, and the output path \<^verbatim>\<open>parent / ("flat_" + name)\<close>. \<open>main\<close> takes the parsed
  command line; \<^verbatim>\<open>json.load\<close> and \<^verbatim>\<open>json.dump\<close> are parameters, and the line printed on
  success is not modelled.
\<close>

definition path_name :: "path \<Rightarrow> string" where
  "path_name p = rev (takeWhile (\<lambda>c. c \<noteq> CHR ''/'') (rev p))"

definition path_dir :: "path \<Rightarrow> string" where
  "path_dir p = rev (dropWhile (\<lambda>c. c \<noteq> CHR ''/'') (rev p))"

definition path_suffix :: "path \<Rightarrow> string" where
  "path_suffix p =
     (let name = path_name p;
          ext = takeWhile (\<lambda>c. c \<noteq> CHR ''.'') (rev name)
      in if CHR ''.'' \<in> set name \<and> ext \<noteq> [] \<and> length ext + 1 < length name
         then CHR ''.'' # rev ext else [])"

definition lower_char :: "char \<Rightarrow> char" where
  "lower_char c =
     (if of_char c \<ge> (65::nat) \<and> of_char c \<le> (90::nat) then char_of (of_char c + (32::nat)) else c)"

definition lower :: "string \<Rightarrow> string" where
  "lower s = map lower_char s"

definition output_fpath_of :: "path \<Rightarrow> path" where
  "output_fpath_of source_fpath = path_dir source_fpath @ ''flat_'' @ path_name source_fpath"

record Namespace =
  arg_source :: path
  arg_overwrite :: bool

definition main_try ::
  "(string \<Rightarrow> pyexc + 'a pyval) \<Rightarrow> ('a flat \<Rightarrow> string) \<Rightarrow>
   JsonFlattener \<Rightarrow> path \<Rightarrow> path \<Rightarrow> filesystem \<Rightarrow> pyexc + filesystem" where
  "main_try json_load json_dump self source_fpath output_fpath fs =
     (case open_read fs source_fpath of
        Inl e \<Rightarrow> Inl e
      | Inr text \<Rightarrow>
          (case json_load text of
             Inl e \<Rightarrow> Inl e
           | Inr data \<Rightarrow>
               (case flatten self data [] of
                  Inl AttributeError \<Rightarrow> Inl (Exc AttributeErr ''object has no attribute items'')
                | Inr flat_data \<Rightarrow> open_write fs output_fpath (json_dump flat_data))))"

fun main_except :: "path \<Rightarrow> path \<Rightarrow> pyexc \<Rightarrow> pyexc" where
  "main_except source_fpath output_fpath (Exc PermissionError e) =
     Exc PermissionError (''Permission denied while accessing '' @ quoted source_fpath @ '' or ''
                          @ quoted output_fpath @ '': '' @ e @ ''.'')"
| "main_except source_fpath output_fpath (Exc UnicodeDecodeError e) =
     Exc ValueError (''Could not decode JSON from '' @ quoted source_fpath @ '': '' @ e @ ''.'')"
| "main_except source_fpath output_fpath (Exc UnicodeEncodeError e) =
     Exc ValueError (''Could not encode JSON to '' @ quoted output_fpath @ '': '' @ e @ ''.'')"
| "main_except source_fpath output_fpath (Exc c e) =
     Exc RuntimeError (''Unexpected error while processing '' @ quoted source_fpath
                       @ [CHR 0x20, CHR 0xE2, CHR 0x86, CHR 0x92, CHR 0x20]
                       @ quoted output_fpath @ '': '' @ e @ ''.'')"

definition main ::
  "(string \<Rightarrow> pyexc + 'a pyval) \<Rightarrow> ('a flat \<Rightarrow> string) \<Rightarrow>
   JsonFlattener \<Rightarrow> Namespace \<Rightarrow> filesystem \<Rightarrow> pyexc option \<times> filesystem" where
  "main json_load json_dump self args fs =
     (let source_fpath = arg_source args in
      if \<not> exists fs source_fpath then
        (Some (Exc FileNotFoundError (''The source file path '' @ quoted source_fpath
                                      @ '' does not exist.'')), fs)
      else if lower (path_suffix source_fpath) \<noteq> ''.json'' then
        (Some (Exc ValueError (''Invalid file type: expected '' @ quoted ''.json'' @ '', got ''
                               @ quoted (path_suffix source_fpath) @ ''.'')), fs)
      else
        (let output_fpath = output_fpath_of source_fpath in
         if exists fs output_fpath \<and> \<not> arg_overwrite args then
           (Some (Exc FileExistsError (''The output file path '' @ quoted output_fpath
              @ '' already exist. Use -w or --overwrite to overwrite the output file.'')), fs)
         else
           (case main_try json_load json_dump self source_fpath output_fpath fs of
              Inl e \<Rightarrow> (Some (main_except source_fpath output_fpath e), fs)
            | Inr fs' \<Rightarrow> (None, fs'))))"

section \<open>Csv2JsonConverter: the constructor and the command line\<close>

text \<open>
  The \<^verbatim>\<open>__main__\<close> block of \<^verbatim>\<open>csv2json.py\<close>. \<^verbatim>\<open>--over-write\<close> is declared with a default
  and no action, so argparse stores the string that follows it, and \<^verbatim>\<open>False\<close> when the
  option is absent: \<open>parsed_over_write\<close> is a bool or a string. The constructor runs its
  three setters in order; \<^verbatim>\<open>_set_over_write\<close> accepts a bool only. A destination without
  suffix is a directory, which the constructor creates; directories are outside the file
  model. \<open>with_suffix p suffix\<close> is the name of \<^verbatim>\<open>p.with_suffix(suffix)\<close>.
  \<open>csv2json_main\<close> gives the exit status, the lines printed and the file system left.
\<close>

datatype pyarg = ArgBool bool | ArgStr string

record CommandLine =
  opt_source :: string
  opt_destination :: "string option"
  opt_over_write :: "string option"

record ParsedArgs =
  parsed_source :: string
  parsed_destination :: string
  parsed_over_write :: pyarg

definition parse_args :: "CommandLine \<Rightarrow> ParsedArgs" where
  "parse_args cl =
     \<lparr>parsed_source = opt_source cl,
      parsed_destination = (case opt_destination cl of None \<Rightarrow> ''output.json'' | Some d \<Rightarrow> d),
      parsed_over_write = (case opt_over_write cl of None \<Rightarrow> ArgBool False | Some s \<Rightarrow> ArgStr s)\<rparr>"

definition with_suffix :: "path \<Rightarrow> string \<Rightarrow> string" where
  "with_suffix p suffix =
     (let name = path_name p in take (length name - length (path_suffix p)) name @ suffix)"

definition joinpath :: "path \<Rightarrow> string \<Rightarrow> path" where
  "joinpath d name =
     (if d = [] \<or> d = ''.'' then name
      else if last d = CHR ''/'' then d @ name
      else d @ ''/'' @ name)"

definition set_source :: "filesystem \<Rightarrow> string \<Rightarrow> pyexc + path" where
  "set_source fs source_arg =
     (if lower (path_suffix source_arg) \<noteq> ''.csv'' then
        Inl (Exc ValueError (''The source file must have a '' @ quoted ''.csv'' @ '' extension.''))
      else if \<not> exists fs source_arg then
        Inl (Exc FileNotFoundError (''The source file '' @ quoted source_arg @ '' does not exist.''))
      else Inr source_arg)"

definition set_destination :: "path \<Rightarrow> string \<Rightarrow> pyexc + path" where
  "set_destination source_path destination_arg =
     (if path_suffix destination_arg = [] then
        Inr (joinpath destination_arg (with_suffix source_path ''.json''))
      else if lower (path_suffix destination_arg) \<noteq> ''.json'' then
        Inl (Exc ValueError (''The destination file must have a '' @ quoted ''.json''
                             @ '' extension.''))
      else Inr destination_arg)"

fun set_over_write :: "pyarg \<Rightarrow> pyexc + bool" where
  "set_over_write (ArgBool b) = Inr b"
| "set_over_write (ArgStr s) =
     Inl (Exc TypeError (''Invalid type for '' @ quoted ''over_write'' @ '': expected ''
                         @ quoted ''bool'' @ '', got '' @ quoted ''str'' @ ''.''))"

definition init :: "filesystem \<Rightarrow> string \<Rightarrow> string \<Rightarrow> pyarg \<Rightarrow> pyexc + Csv2JsonConverter" where
  "init fs source_arg destination_arg over_write_arg =
     (case set_source fs source_arg of
        Inl e \<Rightarrow> Inl e
      | Inr src \<Rightarrow>
          (case set_destination src destination_arg of
             Inl e \<Rightarrow> Inl e
           | Inr dst \<Rightarrow>
               (case set_over_write over_write_arg of
                  Inl e \<Rightarrow> Inl e
                | Inr ow \<Rightarrow> Inr \<lparr>source = src, destination = dst, over_write = ow\<rparr>)))"

fun problem :: "pyexc \<Rightarrow> string" where
  "problem (Exc c e) = ''Problem: '' @ e"

definition csv2json_main ::
  "(string \<Rightarrow> pyexc + string list list) \<Rightarrow> (record_row list \<Rightarrow> string) \<Rightarrow>
   CommandLine \<Rightarrow> filesystem \<Rightarrow> nat \<times> string list \<times> filesystem" where
  "csv2json_main reader json_dump cl fs =
     (let parsed_args = parse_args cl in
      case init fs (parsed_source parsed_args) (parsed_destination parsed_args)
                (parsed_over_write parsed_args) of
        Inl e \<Rightarrow> (1, [problem e], fs)
      | Inr converter \<Rightarrow>
          (case convert reader json_dump converter fs of
             (Some e, fs') \<Rightarrow> (1, [problem e], fs')
           | (None, fs') \<Rightarrow> (0, [], fs')))"

section \<open>Stand-ins for the library, for concrete runs\<close>

text \<open>
  For running the tools on concrete files: \<^verbatim>\<open>csv.reader\<close> on text without quotes (one row
  per line, cells split at commas, a blank line is the empty row), \<^verbatim>\<open>json.dump\<close> with
  \<^verbatim>\<open>indent=2\<close> on strings that need no escaping, a loader that yields a given tree, and a
  file system in which nothing is refused.
\<close>

fun split_on :: "char \<Rightarrow> string \<Rightarrow> string list" where
  "split_on c [] = [[]]"
| "split_on c (x # xs) =
     (if x = c then [] # split_on c xs
      else (case split_on c xs of w # ws \<Rightarrow> (x # w) # ws | [] \<Rightarrow> [[x]]))"

definition plain_lines :: "string \<Rightarrow> string list" where
  "plain_lines text =
     (let ls = split_on (CHR 0x0A) text in if last ls = [] then butlast ls else ls)"

definition plain_reader :: "string \<Rightarrow> pyexc + string list list" where
  "plain_reader text =
     Inr (map (\<lambda>l. if l = [] then [] else split_on (CHR '','') l) (plain_lines text))"

definition dq :: "string \<Rightarrow> string" where
  "dq s = [CHR 0x22] @ s @ [CHR 0x22]"

definition nl :: "nat \<Rightarrow> string" where
  "nl n = CHR 0x0A # replicate n (CHR 0x20)"

definition join :: "string \<Rightarrow> string list \<Rightarrow> string" where
  "join sep xs = (case xs of [] \<Rightarrow> [] | x # rest \<Rightarrow> x @ concat (map (\<lambda>y. sep @ y) rest))"

definition plain_block :: "char \<Rightarrow> char \<Rightarrow> nat \<Rightarrow> string list \<Rightarrow> string" where
  "plain_block l r n xs =
     (if xs = [] then [l, r]
      else [l] @ nl (n + 2) @ join ('','' @ nl (n + 2)) xs @ nl n @ [r])"

fun plain_cell :: "nat \<Rightarrow> cell \<Rightarrow> string" where
  "plain_cell n (Cell s) = dq s"
| "plain_cell n NoCell = ''null''"
| "plain_cell n (RestCells xs) = plain_block (CHR ''['') (CHR '']'') n (map dq xs)"

definition plain_key :: "string option \<Rightarrow> string" where
  "plain_key k = (case k of None \<Rightarrow> dq ''null'' | Some s \<Rightarrow> dq s)"

definition plain_record :: "nat \<Rightarrow> record_row \<Rightarrow> string" where
  "plain_record n d =
     plain_block (CHR ''{'') (CHR ''}'') n (map (\<lambda>(k, v). plain_key k @ '': '' @ plain_cell (n + 2) v) d)"

definition plain_json_dump :: "record_row list \<Rightarrow> string" where
  "plain_json_dump data = plain_block (CHR ''['') (CHR '']'') 0 (map (plain_record 2) data)"

definition plain_flat_dump :: "int flat \<Rightarrow> string" where
  "plain_flat_dump flat_data =
     plain_block (CHR ''{'') (CHR ''}'') 0 (map (\<lambda>(k, v). dq k @ '': '' @ str_int v) flat_data)"

definition plain_fs :: "(path \<times> string) list \<Rightarrow> filesystem" where
  "plain_fs fl = \<lparr>files = map_of fl, read_fails = (\<lambda>p. None), write_fails = (\<lambda>p. None)\<rparr>"

definition load_as :: "'a pyval \<Rightarrow> string \<Rightarrow> pyexc + 'a pyval" where
  "load_as data content = Inr data"

section \<open>flatten on a store of objects\<close>

text \<open>
  To speak about mutation, the objects live in a store: the list of all objects, an address
  being an index, and a dict or list object holding the addresses of its values. Creating
  an object appends it. \<open>flatten_h\<close> follows \<^verbatim>\<open>flatten\<close> statement by statement:
  line 55 creates \<open>flat_data\<close>, line 63 creates the dict built from a list, line 77 creates
  the dict passed to the recursive call, and lines 74, 77 and 80 change the object
  \<open>flat_data\<close> in place. The first argument is the depth of recursion still allowed;
  when it is used up the interpreter raises \<^verbatim>\<open>RecursionError\<close>.
\<close>

type_synonym addr = nat

datatype 'a pyobj = OScalar 'a | ODict "(pykey \<times> addr) list" | OList "addr list"

type_synonym 'a heap = "'a pyobj list"








text \<open>
  \<open>ext h h'\<close>: every object of \<open>h\<close> is still there, unchanged, in \<open>h'\<close>
  (\<open>ext_but fd\<close>: but for the object at \<open>fd\<close>). \<open>repr h a data\<close>: the object at address
  \<open>a\<close> of the store \<open>h\<close> is the tree \<open>data\<close>. \<open>height\<close>: the nesting depth of a tree.
  \<open>flat_rel h refs m\<close>: the items \<open>refs\<close> of a flat dict object have the keys of \<open>m\<close> and
  point to the scalars of \<open>m\<close>.
\<close>

definition ext :: "'a heap \<Rightarrow> 'a heap \<Rightarrow> bool" where
  "ext h h' = (length h \<le> length h' \<and> (\<forall>p < length h. h' ! p = h ! p))"












section \<open>Properties of the dictionary operations\<close>

lemma map_of_dict_setitem: "map_of (dict_setitem d k v) = (map_of d)(k \<mapsto> v)"
  by (simp add: dict_setitem_def update_conv')

lemma map_of_dict_update: "map_of (dict_update d e) = map_of d ++ map_of (rev e)"
  unfolding dict_update_def
proof (induction e arbitrary: d)
  case Nil
  show ?case by simp
next
  case (Cons p e)
  obtain k v where p: "p = (k, v)" by (cases p)
  have "map_of (fold (\<lambda>(k, v) acc. dict_setitem acc k v) (p # e) d)
        = (map_of d)(k \<mapsto> v) ++ map_of (rev e)"
    by (simp only: p fold_simps prod.case Cons.IH map_of_dict_setitem)
  also have "\<dots> = map_of d ++ (map_of [(k, v)] ++ map_of (rev e))"
    by (simp add: map_add_assoc [symmetric] map_add_upd)
  also have "\<dots> = map_of d ++ map_of (rev (p # e))"
    by (simp add: p)
  finally show ?case .
qed

lemma distinct_dict_setitem: "distinct (map fst d) \<Longrightarrow> distinct (map fst (dict_setitem d k v))"
  by (simp add: dict_setitem_def distinct_update)

lemma distinct_dict_update: "distinct (map fst d) \<Longrightarrow> distinct (map fst (dict_update d e))"
  unfolding dict_update_def
  by (induction e arbitrary: d) (auto simp: distinct_dict_setitem)

lemma dict_setitem_fresh: "k \<notin> fst ` set d \<Longrightarrow> dict_setitem d k v = d @ [(k, v)]"
  unfolding dict_setitem_def by (induction d) auto

lemma dict_update_fresh: "distinct (map fst (d @ e)) \<Longrightarrow> dict_update d e = d @ e"
  unfolding dict_update_def
proof (induction e arbitrary: d)
  case Nil
  show ?case by simp
next
  case (Cons p e)
  obtain k v where p: "p = (k, v)" by (cases p)
  from Cons.prems have fresh: "k \<notin> fst ` set d" by (auto simp: p)
  from Cons.prems have "distinct (map fst ((d @ [(k, v)]) @ e))" by (auto simp: p)
  from Cons.IH [OF this] show ?case
    by (simp add: p dict_setitem_fresh [OF fresh])
qed

lemma items_induct [case_names Nil Scalar Dict List]:
  assumes nil: "P []"
    and scalar: "\<And>k x rest. P rest \<Longrightarrow> P ((k, PScalar x) # rest)"
    and dict: "\<And>k d rest. P d \<Longrightarrow> P rest \<Longrightarrow> P ((k, PDict d) # rest)"
    and list: "\<And>k xs rest. P (enumerate_dict xs) \<Longrightarrow> P rest \<Longrightarrow> P ((k, PList xs) # rest)"
  shows "P (items :: (pykey \<times> 'a pyval) list)"
proof (induction items rule: measure_induct_rule [where f = items_size])
  case (less items)
  show ?case
  proof (cases items)
    case Nil
    with nil show ?thesis by simp
  next
    case (Cons p rest)
    obtain k v where p: "p = (k, v)" by (cases p)
    have rest: "P rest"
      by (rule less.IH) (simp add: Cons p items_size_Cons)
    show ?thesis
    proof (cases v)
      case (PScalar x)
      with scalar [OF rest] show ?thesis by (simp add: Cons p)
    next
      case (PDict d)
      have "P d"
        by (rule less.IH) (simp add: Cons p PDict items_size_Cons pysize_PDict del: pysize.simps)
      from dict [OF this rest] show ?thesis by (simp add: Cons p PDict)
    next
      case (PList xs)
      have "P (enumerate_dict xs)"
        by (rule less.IH) (simp add: Cons p PList items_size_Cons items_size_enumerate)
      from list [OF this rest] show ?thesis by (simp add: Cons p PList)
    qed
  qed
qed

lemma flatten_items_Scalar:
  "flatten_items self ((k, PScalar x) # rest) parent_key flat_data =
     flatten_items self rest parent_key (dict_setitem flat_data (cur_key_of self parent_key k) x)"
  by (simp add: Let_def)

lemma flatten_items_Dict:
  "flatten_items self ((k, PDict d) # rest) parent_key flat_data =
     (case flatten_items self d (cur_key_of self parent_key k) [] of
        Inl e \<Rightarrow> Inl e
      | Inr sub \<Rightarrow> flatten_items self rest parent_key (dict_update flat_data sub))"
  by (simp add: Let_def)

lemma flatten_items_List:
  "flatten_items self ((k, PList xs) # rest) parent_key flat_data =
     (case flatten_items self (enumerate_dict xs) (cur_key_of self parent_key k) [] of
        Inl e \<Rightarrow> Inl e
      | Inr sub \<Rightarrow> flatten_items self rest parent_key (dict_update flat_data sub))"
  by (simp add: Let_def)

lemmas flatten_items_unfold = flatten_items_Scalar flatten_items_Dict flatten_items_List

lemma flatten_items_total:
  "\<exists>m. flatten_items self items parent_key flat_data = Inr m"
proof (induction items arbitrary: parent_key flat_data rule: items_induct)
  case Nil
  show ?case by simp
next
  case (Scalar k x rest)
  show ?case by (simp only: flatten_items_Scalar Scalar.IH)
next
  case (Dict k d rest)
  obtain sub where "flatten_items self d (cur_key_of self parent_key k) [] = Inr sub"
    using Dict.IH(1) by blast
  then show ?case by (simp add: flatten_items_Dict Dict.IH(2) del: flatten_items.simps)
next
  case (List k xs rest)
  obtain sub where "flatten_items self (enumerate_dict xs) (cur_key_of self parent_key k) [] = Inr sub"
    using List.IH(1) by blast
  then show ?case by (simp add: flatten_items_List List.IH(2) del: flatten_items.simps)
qed

lemma flatten_top_items:
  "flatten self data [] = flatten_items self (top_items data) [] []"
  by (cases data) simp_all

lemma items_paths_unfold:
  "items_paths ((k, PScalar x) # rest) = ([k], x) # items_paths rest"
  "items_paths ((k, PDict d) # rest) = map (\<lambda>(p, x). (k # p, x)) (items_paths d) @ items_paths rest"
  "items_paths ((k, PList xs) # rest) =
     map (\<lambda>(p, x). (k # p, x)) (items_paths (enumerate_dict xs)) @ items_paths rest"
  by simp_all

lemma keyed_leaves_Cons:
  "keyed_leaves self parent_key (map (\<lambda>(p, x). (k # p, x)) ps) =
     keyed_leaves self (cur_key_of self parent_key k) ps"
  by (induction ps) (auto simp: keyed_leaves_def)

lemma keyed_leaves_append:
  "keyed_leaves self parent_key (ps @ qs) =
     keyed_leaves self parent_key ps @ keyed_leaves self parent_key qs"
  by (simp add: keyed_leaves_def)

lemma flatten_items_distinct:
  "flatten_items self items parent_key flat_data = Inr m \<Longrightarrow> distinct (map fst flat_data) \<Longrightarrow>
     distinct (map fst m)"
proof (induction items arbitrary: parent_key flat_data m rule: items_induct)
  case Nil
  then show ?case by simp
next
  case (Scalar k x rest)
  from Scalar.prems(1) have
    "flatten_items self rest parent_key (dict_setitem flat_data (cur_key_of self parent_key k) x) = Inr m"
    by (simp only: flatten_items_Scalar)
  from Scalar.IH [OF this] Scalar.prems(2) show ?case
    by (simp add: distinct_dict_setitem)
next
  case (Dict k d rest)
  obtain sub where sub: "flatten_items self d (cur_key_of self parent_key k) [] = Inr sub"
    using flatten_items_total by blast
  with Dict.prems have
    "flatten_items self rest parent_key (dict_update flat_data sub) = Inr m"
    by (simp add: flatten_items_Dict del: flatten_items.simps)
  from Dict.IH(2) [OF this] Dict.prems(2) show ?case
    by (simp add: distinct_dict_update)
next
  case (List k xs rest)
  obtain sub where sub:
    "flatten_items self (enumerate_dict xs) (cur_key_of self parent_key k) [] = Inr sub"
    using flatten_items_total by blast
  with List.prems have
    "flatten_items self rest parent_key (dict_update flat_data sub) = Inr m"
    by (simp add: flatten_items_List del: flatten_items.simps)
  from List.IH(2) [OF this] List.prems(2) show ?case
    by (simp add: distinct_dict_update)
qed

lemma map_of_rev_distinct: "distinct (map fst xs) \<Longrightarrow> map_of (rev xs) = map_of xs"
proof (induction xs)
  case Nil
  show ?case by simp
next
  case (Cons p xs)
  obtain k v where p: "p = (k, v)" by (cases p)
  from Cons.prems have "k \<notin> dom (map_of xs)"
    by (simp add: p dom_map_of_conv_image_fst)
  then have "dom (map_of xs) \<inter> dom [k \<mapsto> v] = {}" by simp
  from map_add_comm [OF this] Cons show ?case
    by (simp add: p)
qed

lemma flatten_items_sub_map_of:
  "flatten_items self items parent_key [] = Inr sub \<Longrightarrow> map_of (rev sub) = map_of sub"
  by (rule map_of_rev_distinct) (erule flatten_items_distinct, simp)

lemma flatten_items_map_of:
  "flatten_items self items parent_key flat_data = Inr m \<Longrightarrow>
     map_of m = map_of flat_data ++ map_of (rev (keyed_leaves self parent_key (items_paths items)))"
proof (induction items arbitrary: parent_key flat_data m rule: items_induct)
  case Nil
  then show ?case by (simp add: keyed_leaves_def)
next
  case (Scalar k x rest)
  from Scalar.prems have
    "flatten_items self rest parent_key (dict_setitem flat_data (cur_key_of self parent_key k) x) = Inr m"
    by (simp only: flatten_items_Scalar)
  from Scalar.IH [OF this] have
    "map_of m = (map_of flat_data)(cur_key_of self parent_key k \<mapsto> x)
                ++ map_of (rev (keyed_leaves self parent_key (items_paths rest)))"
    by (simp only: map_of_dict_setitem)
  also have "(map_of flat_data)(cur_key_of self parent_key k \<mapsto> x)
             = map_of flat_data ++ map_of [(cur_key_of self parent_key k, x)]"
    by simp
  also have "\<dots> ++ map_of (rev (keyed_leaves self parent_key (items_paths rest)))
             = map_of flat_data
               ++ map_of (rev (keyed_leaves self parent_key (items_paths ((k, PScalar x) # rest))))"
    by (simp add: keyed_leaves_def map_add_assoc del: map_of.simps)
  finally show ?case .
next
  case (Dict k d rest)
  obtain sub where sub: "flatten_items self d (cur_key_of self parent_key k) [] = Inr sub"
    using flatten_items_total by blast
  with Dict.prems have
    "flatten_items self rest parent_key (dict_update flat_data sub) = Inr m"
    by (simp add: flatten_items_Dict del: flatten_items.simps)
  from Dict.IH(2) [OF this] Dict.IH(1) [OF sub] flatten_items_sub_map_of [OF sub] show ?case
    by (simp add: items_paths_unfold keyed_leaves_append keyed_leaves_Cons map_of_dict_update
                  map_add_assoc del: items_paths.simps)
next
  case (List k xs rest)
  obtain sub where sub:
    "flatten_items self (enumerate_dict xs) (cur_key_of self parent_key k) [] = Inr sub"
    using flatten_items_total by blast
  with List.prems have
    "flatten_items self rest parent_key (dict_update flat_data sub) = Inr m"
    by (simp add: flatten_items_List del: flatten_items.simps)
  from List.IH(2) [OF this] List.IH(1) [OF sub] flatten_items_sub_map_of [OF sub] show ?case
    by (simp add: items_paths_unfold keyed_leaves_append keyed_leaves_Cons map_of_dict_update
                  map_add_assoc del: items_paths.simps)
qed

lemma flatten_items_append:
  "flatten_items self (pre @ post) parent_key flat_data =
     (case flatten_items self pre parent_key flat_data of
        Inl e \<Rightarrow> Inl e
      | Inr fd \<Rightarrow> flatten_items self post parent_key fd)"
proof (induction pre arbitrary: flat_data)
  case Nil
  show ?case by simp
next
  case (Cons p pre)
  obtain k v where p: "p = (k, v)" by (cases p)
  show ?case
    by (cases v) (simp_all add: p Let_def Cons.IH split: sum.splits)
qed

section \<open>Decimal strings\<close>

lemma str_nat_nonempty: "str_nat n \<noteq> []"
  by (subst str_nat.simps) simp

lemma digit_char_inj: "a < 10 \<Longrightarrow> b < 10 \<Longrightarrow> digit_char a = digit_char b \<Longrightarrow> a = b"
proof -
  assume a: "a < 10" and b: "b < 10" and e: "digit_char a = digit_char b"
  have "distinct ''0123456789''" by simp
  from nth_eq_iff_index_eq [OF this, of a b] a b e show "a = b"
    by (simp add: digit_char_def)
qed

lemma digit_char_digit: "d < 10 \<Longrightarrow> digit_char d \<in> digit_chars"
  unfolding digit_char_def digit_chars_def by (rule nth_mem) simp

lemma str_nat_digits: "set (str_nat n) \<subseteq> digit_chars"
proof (induction n rule: str_nat.induct)
  case (1 n)
  show ?case
  proof (cases "n < 10")
    case True
    then show ?thesis by (subst str_nat.simps) (simp add: digit_char_digit)
  next
    case False
    with 1 show ?thesis by (subst str_nat.simps) (simp add: digit_char_digit)
  qed
qed

lemma str_nat_inj: "str_nat m = str_nat n \<Longrightarrow> m = n"
proof (induction m arbitrary: n rule: str_nat.induct)
  case (1 m)
  show ?case
  proof (cases "m < 10")
    case m: True
    show ?thesis
    proof (cases "n < 10")
      case True
      with m "1.prems" show ?thesis
        by (simp add: str_nat.simps [of m] str_nat.simps [of n] digit_char_inj)
    next
      case False
      with m "1.prems" str_nat_nonempty [of "n div 10"] show ?thesis
        by (auto simp add: str_nat.simps [of m] str_nat.simps [of n])
    qed
  next
    case m: False
    show ?thesis
    proof (cases "n < 10")
      case True
      with m "1.prems" show ?thesis
        by (simp add: str_nat.simps [of m] str_nat.simps [of n] str_nat_nonempty)
    next
      case False
      with m "1.prems" have e: "str_nat (m div 10) = str_nat (n div 10)"
        and d: "digit_char (m mod 10) = digit_char (n mod 10)"
        by (simp_all add: str_nat.simps [of m] str_nat.simps [of n])
      from "1.IH" [OF m e] have "m div 10 = n div 10" .
      moreover from d have "m mod 10 = n mod 10" by (simp add: digit_char_inj)
      ultimately show ?thesis by (metis div_mult_mod_eq)
    qed
  qed
qed


section \<open>Keys of distinct leaf paths\<close>

lemma cur_key_of_base: "cur_key_of self parent_key k = key_base self parent_key (is_int_key k) @ str_key k"
  by (simp add: cur_key_of_def key_base_def)

lemma takeWhile_seg:
  assumes "set s \<inter> S = {}" "tail_ok S t"
  shows "takeWhile (\<lambda>c. c \<notin> S) (s @ t) = s"
proof -
  have "takeWhile (\<lambda>c. c \<notin> S) t = []"
    using assms(2) by (cases t) (auto simp: tail_ok_def)
  moreover have "\<forall>c \<in> set s. c \<notin> S" using assms(1) by auto
  ultimately show ?thesis by (simp add: takeWhile_append2)
qed

lemma seg_prefix_unique:
  assumes "seg_ok S s1" "seg_ok S s2" "tail_ok S t1" "tail_ok S t2" "s1 @ t1 = s2 @ t2"
  shows "s1 = s2"
proof -
  have "s1 = takeWhile (\<lambda>c. c \<notin> S) (s1 @ t1)"
    using assms(1,3) by (simp add: takeWhile_seg seg_ok_def)
  also have "\<dots> = takeWhile (\<lambda>c. c \<notin> S) (s2 @ t2)" by (simp only: assms(5))
  also have "\<dots> = s2"
    using assms(2,4) by (simp add: takeWhile_seg seg_ok_def)
  finally show ?thesis .
qed

lemma under_Cons:
  "under self parent_key (p # rest) key =
     ((\<exists>t. key = cur_key_of self parent_key (fst p) @ t \<and> tail_ok (sep_chars self) t)
      \<or> under self parent_key rest key)"
  by (auto simp: under_def)

text \<open>A key below item \<open>k\<close> and a key below another item of the same dict differ.\<close>

lemma sibling_keys_differ:
  assumes ok: "segs_ok (sep_chars self) ((k, v) # rest)"
    and t: "tail_ok (sep_chars self) t"
    and u: "under self parent_key rest (cur_key_of self parent_key k @ t)"
  shows False
proof -
  from u obtain p t' where p: "p \<in> set rest"
    and e: "cur_key_of self parent_key k @ t = cur_key_of self parent_key (fst p) @ t'"
    and t': "tail_ok (sep_chars self) t'"
    by (auto simp: under_def)
  from ok p have kind: "is_int_key (fst p) = is_int_key k"
    by (auto simp: segs_ok_def)
  from e have "str_key k @ t = str_key (fst p) @ t'"
    by (simp add: cur_key_of_base kind)
  moreover from ok p have "seg_ok (sep_chars self) (str_key k)" "seg_ok (sep_chars self) (str_key (fst p))"
    by (auto simp: segs_ok_def)
  ultimately have "str_key k = str_key (fst p)"
    using t t' by (blast intro: seg_prefix_unique)
  moreover from ok p have "str_key k \<noteq> str_key (fst p)"
    by (auto simp: segs_ok_def)
  ultimately show False by simp
qed

text \<open>A key below a child item of \<open>k\<close> extends the key of \<open>k\<close> by a separator and more.\<close>

lemma child_key_under:
  assumes seps: "seps_ok self"
    and k: "seg_ok (sep_chars self) (str_key k)"
    and u: "under self (cur_key_of self parent_key k) sub key"
  shows "\<exists>t. key = cur_key_of self parent_key k @ t \<and> tail_ok (sep_chars self) t"
proof -
  from u obtain p t where e: "key = cur_key_of self (cur_key_of self parent_key k) (fst p) @ t"
    by (auto simp: under_def)
  from k have ne: "cur_key_of self parent_key k \<noteq> []"
    by (simp add: cur_key_of_base seg_ok_def)
  let ?sep = "if is_int_key (fst p) then list_sep self else dict_sep self"
  from seps have "?sep \<noteq> []" "set ?sep \<subseteq> sep_chars self"
    by (auto simp: seps_ok_def sep_chars_def)
  then have "tail_ok (sep_chars self) (?sep @ str_key (fst p) @ t)"
    by (cases ?sep) (auto simp: tail_ok_def)
  moreover from e ne have "key = cur_key_of self parent_key k @ (?sep @ str_key (fst p) @ t)"
    by (simp add: cur_key_of_base [of self "cur_key_of self parent_key k"] key_base_def)
  ultimately show ?thesis by blast
qed


lemma str_int_nat: "str_int (int i) = str_nat i"
  by (simp add: str_int_def)

lemma key_avoids_seg: "key_avoids S k \<Longrightarrow> seg_ok S (str_key k) \<and> \<not> is_int_key k"
  by (cases k) (simp_all add: seg_ok_def)

lemma str_key_inj_strings: "\<not> is_int_key a \<Longrightarrow> \<not> is_int_key b \<Longrightarrow> str_key a = str_key b \<Longrightarrow> a = b"
  by (cases a; cases b) simp_all

lemma segs_ok_dict:
  assumes "distinct (map fst d)" "list_all (key_avoids S) (map fst d)"
  shows "segs_ok S d"
proof -
  from assms(2) have ka: "\<forall>p \<in> set d. seg_ok S (str_key (fst p)) \<and> \<not> is_int_key (fst p)"
    by (auto simp: list_all_iff key_avoids_seg)
  then have "inj_on str_key (set (map fst d))"
    by (auto intro!: inj_onI str_key_inj_strings)
  with assms(1) have "distinct (map str_key (map fst d))"
    by (blast intro: iffD2 [OF distinct_map])
  then have "distinct (map (\<lambda>p. str_key (fst p)) d)"
    by (simp add: comp_def)
  with ka show ?thesis by (simp add: segs_ok_def)
qed

lemma enumerate_dict_keys:
  "map (\<lambda>p. str_key (fst p)) (enumerate_dict xs) = map str_nat [0..<length xs]"
proof -
  have "map (\<lambda>p. str_key (fst p)) (enumerate_dict xs)
        = map (str_nat \<circ> fst) (List.enumerate 0 xs)"
    by (simp add: enumerate_dict_def comp_def case_prod_unfold str_int_nat)
  also have "\<dots> = map str_nat (map fst (List.enumerate 0 xs))"
    by (simp only: map_map)
  also have "\<dots> = map str_nat [0..<length xs]"
    by simp
  finally show ?thesis .
qed

lemma segs_ok_enumerate:
  assumes "S \<inter> digit_chars = {}"
  shows "segs_ok S (enumerate_dict xs)"
proof -
  have "inj_on str_nat (set [0..<length xs])"
    by (rule inj_onI) (rule str_nat_inj)
  then have d: "distinct (map (\<lambda>p. str_key (fst p)) (enumerate_dict xs))"
    by (simp add: enumerate_dict_keys distinct_map)
  have k: "\<forall>p \<in> set (enumerate_dict xs). is_int_key (fst p)"
    by (auto simp: enumerate_dict_def)
  have "\<forall>p \<in> set (enumerate_dict xs). \<exists>i. str_key (fst p) = str_nat i"
    by (auto simp: enumerate_dict_def str_int_nat)
  with assms str_nat_digits str_nat_nonempty
  have "\<forall>p \<in> set (enumerate_dict xs). seg_ok S (str_key (fst p))"
    by (fastforce simp: seg_ok_def)
  with d k show ?thesis by (simp add: segs_ok_def)
qed

lemma segs_ok_rest: "segs_ok S (p # rest) \<Longrightarrow> segs_ok S rest"
  by (auto simp: segs_ok_def)

lemma segs_ok_head: "segs_ok S ((k, v) # rest) \<Longrightarrow> seg_ok S (str_key k)"
  by (auto simp: segs_ok_def)

lemma leaf_keys_Nil: "leaf_keys self parent_key [] = []"
  by (simp add: leaf_keys_def keyed_leaves_def)

lemma leaf_keys_Scalar:
  "leaf_keys self parent_key ((k, PScalar x) # rest) =
     cur_key_of self parent_key k # leaf_keys self parent_key rest"
  by (simp add: leaf_keys_def keyed_leaves_def)

lemma leaf_keys_Dict:
  "leaf_keys self parent_key ((k, PDict d) # rest) =
     leaf_keys self (cur_key_of self parent_key k) d @ leaf_keys self parent_key rest"
  by (simp add: leaf_keys_def items_paths_unfold keyed_leaves_append keyed_leaves_Cons
           del: items_paths.simps)

lemma leaf_keys_List:
  "leaf_keys self parent_key ((k, PList xs) # rest) =
     leaf_keys self (cur_key_of self parent_key k) (enumerate_dict xs) @ leaf_keys self parent_key rest"
  by (simp add: leaf_keys_def items_paths_unfold keyed_leaves_append keyed_leaves_Cons
           del: items_paths.simps)

text \<open>The step shared by the dict and the list case of the induction below.\<close>

lemma leaf_keys_child_step:
  assumes seps: "seps_ok self"
    and ok: "segs_ok (sep_chars self) ((k, v) # rest)"
    and sub: "distinct (leaf_keys self (cur_key_of self parent_key k) sub)"
             "\<forall>key \<in> set (leaf_keys self (cur_key_of self parent_key k) sub).
                under self (cur_key_of self parent_key k) sub key"
    and rest: "distinct (leaf_keys self parent_key rest)"
              "\<forall>key \<in> set (leaf_keys self parent_key rest). under self parent_key rest key"
  shows "distinct (leaf_keys self (cur_key_of self parent_key k) sub @ leaf_keys self parent_key rest)
         \<and> (\<forall>key \<in> set (leaf_keys self (cur_key_of self parent_key k) sub @ leaf_keys self parent_key rest).
               under self parent_key ((k, v) # rest) key)"
proof -
  have below: "\<exists>t. key = cur_key_of self parent_key k @ t \<and> tail_ok (sep_chars self) t"
    if "key \<in> set (leaf_keys self (cur_key_of self parent_key k) sub)" for key
    using child_key_under [OF seps segs_ok_head [OF ok]] sub(2) that by blast
  have disjoint: "set (leaf_keys self (cur_key_of self parent_key k) sub)
                  \<inter> set (leaf_keys self parent_key rest) = {}"
  proof (rule ccontr)
    assume "\<not> ?thesis"
    then obtain key where a: "key \<in> set (leaf_keys self (cur_key_of self parent_key k) sub)"
      and b: "key \<in> set (leaf_keys self parent_key rest)" by blast
    from below [OF a] obtain t where "key = cur_key_of self parent_key k @ t"
      "tail_ok (sep_chars self) t" by blast
    with rest(2) b sibling_keys_differ [OF ok] show False by blast
  qed
  from sub(1) rest(1) disjoint below rest(2) show ?thesis
    by (auto simp: under_Cons)
qed

lemma leaf_keys_distinct:
  assumes seps: "seps_ok self"
  shows "segs_ok (sep_chars self) items \<Longrightarrow> plain_items (sep_chars self) items \<Longrightarrow>
     distinct (leaf_keys self parent_key items)
     \<and> (\<forall>key \<in> set (leaf_keys self parent_key items). under self parent_key items key)"
proof (induction items arbitrary: parent_key rule: items_induct)
  case Nil
  show ?case by (simp add: leaf_keys_Nil)
next
  case (Scalar k x rest)
  from Scalar.prems have r: "segs_ok (sep_chars self) rest" "plain_items (sep_chars self) rest"
    by (auto intro: segs_ok_rest)
  note ih = Scalar.IH [OF r, of parent_key]
  have "cur_key_of self parent_key k \<notin> set (leaf_keys self parent_key rest)"
  proof
    assume "cur_key_of self parent_key k \<in> set (leaf_keys self parent_key rest)"
    with ih have "under self parent_key rest (cur_key_of self parent_key k @ [])" by simp
    with sibling_keys_differ [OF Scalar.prems(1), of "[]"] show False
      by (simp add: tail_ok_def)
  qed
  moreover have "under self parent_key ((k, PScalar x) # rest) (cur_key_of self parent_key k)"
    by (simp add: under_Cons tail_ok_def)
  ultimately show ?case using ih
    by (auto simp: leaf_keys_Scalar under_Cons)
next
  case (Dict k d rest)
  from Dict.prems have r: "segs_ok (sep_chars self) rest" "plain_items (sep_chars self) rest"
    by (auto intro: segs_ok_rest)
  from Dict.prems(2) have s: "segs_ok (sep_chars self) d" "plain_items (sep_chars self) d"
    by (auto intro: segs_ok_dict)
  note ih1 = Dict.IH(1) [OF s, of "cur_key_of self parent_key k"]
  note ih2 = Dict.IH(2) [OF r, of parent_key]
  from leaf_keys_child_step [OF seps Dict.prems(1) conjunct1 [OF ih1] conjunct2 [OF ih1]
      conjunct1 [OF ih2] conjunct2 [OF ih2]]
  show ?case unfolding leaf_keys_Dict .
next
  case (List k xs rest)
  from List.prems have r: "segs_ok (sep_chars self) rest" "plain_items (sep_chars self) rest"
    by (auto intro: segs_ok_rest)
  from seps have s1: "segs_ok (sep_chars self) (enumerate_dict xs)"
    by (auto intro: segs_ok_enumerate simp: seps_ok_def)
  from List.prems(2) have s2: "plain_items (sep_chars self) (enumerate_dict xs)"
    by simp
  note ih1 = List.IH(1) [OF s1 s2, of "cur_key_of self parent_key k"]
  note ih2 = List.IH(2) [OF r, of parent_key]
  from leaf_keys_child_step [OF seps List.prems(1) conjunct1 [OF ih1] conjunct2 [OF ih1]
      conjunct1 [OF ih2] conjunct2 [OF ih2]]
  show ?case unfolding leaf_keys_List .
qed


lemma flatten_items_exact:
  "distinct (map fst flat_data @ leaf_keys self parent_key items) \<Longrightarrow>
     flatten_items self items parent_key flat_data
       = Inr (flat_data @ keyed_leaves self parent_key (items_paths items))"
proof (induction items arbitrary: parent_key flat_data rule: items_induct)
  case Nil
  show ?case by (simp add: keyed_leaves_def)
next
  case (Scalar k x rest)
  from Scalar.prems have "cur_key_of self parent_key k \<notin> fst ` set flat_data"
    by (auto simp: leaf_keys_Scalar)
  then have e: "dict_setitem flat_data (cur_key_of self parent_key k) x
                = flat_data @ [(cur_key_of self parent_key k, x)]"
    by (rule dict_setitem_fresh)
  from Scalar.prems have
    "distinct (map fst (flat_data @ [(cur_key_of self parent_key k, x)]) @ leaf_keys self parent_key rest)"
    by (auto simp: leaf_keys_Scalar)
  from Scalar.IH [OF this] show ?case
    by (simp add: flatten_items_Scalar e keyed_leaves_def del: flatten_items.simps)
next
  case (Dict k d rest)
  let ?sub = "keyed_leaves self (cur_key_of self parent_key k) (items_paths d)"
  from Dict.prems have p: "distinct (map fst flat_data
      @ leaf_keys self (cur_key_of self parent_key k) d @ leaf_keys self parent_key rest)"
    by (simp only: leaf_keys_Dict)
  then have "distinct (map fst [] @ leaf_keys self (cur_key_of self parent_key k) d)"
    by simp
  from Dict.IH(1) [OF this]
  have sub: "flatten_items self d (cur_key_of self parent_key k) [] = Inr ?sub" by simp
  from p have "distinct (map fst (flat_data @ ?sub))"
    by (auto simp: leaf_keys_def)
  then have u: "dict_update flat_data ?sub = flat_data @ ?sub"
    by (rule dict_update_fresh)
  from p have "distinct (map fst (flat_data @ ?sub) @ leaf_keys self parent_key rest)"
    by (auto simp: leaf_keys_def)
  from Dict.IH(2) [OF this] show ?case
    by (simp add: flatten_items_Dict sub u items_paths_unfold keyed_leaves_append keyed_leaves_Cons
             del: flatten_items.simps items_paths.simps)
next
  case (List k xs rest)
  let ?sub = "keyed_leaves self (cur_key_of self parent_key k) (items_paths (enumerate_dict xs))"
  from List.prems have p: "distinct (map fst flat_data
      @ leaf_keys self (cur_key_of self parent_key k) (enumerate_dict xs)
      @ leaf_keys self parent_key rest)"
    by (simp only: leaf_keys_List)
  then have
    "distinct (map fst [] @ leaf_keys self (cur_key_of self parent_key k) (enumerate_dict xs))"
    by simp
  from List.IH(1) [OF this]
  have sub: "flatten_items self (enumerate_dict xs) (cur_key_of self parent_key k) [] = Inr ?sub"
    by simp
  from p have "distinct (map fst (flat_data @ ?sub))"
    by (auto simp: leaf_keys_def)
  then have u: "dict_update flat_data ?sub = flat_data @ ?sub"
    by (rule dict_update_fresh)
  from p have "distinct (map fst (flat_data @ ?sub) @ leaf_keys self parent_key rest)"
    by (auto simp: leaf_keys_def)
  from List.IH(2) [OF this] show ?case
    by (simp add: flatten_items_List sub u items_paths_unfold keyed_leaves_append keyed_leaves_Cons
             del: flatten_items.simps items_paths.simps)
qed

section \<open>Properties of the two drivers\<close>

lemma dict_row_rectangular:
  assumes "distinct fieldnames" "length row = length fieldnames"
  shows "dict_row fieldnames row = zip (map Some fieldnames) (map Cell row)"
proof -
  from assms have "distinct (map fst ([] @ zip (map Some fieldnames) (map Cell row)))"
    by (simp add: distinct_map inj_on_def)
  from dict_update_fresh [OF this] assms(2) show ?thesis
    by (simp add: dict_row_def)
qed

lemma DictReader_rectangular:
  assumes "distinct header" "header \<noteq> []" "\<forall>r \<in> set rows. length r = length header"
  shows "DictReader (header # rows) = map (\<lambda>r. zip (map Some header) (map Cell r)) rows"
proof -
  from assms(2,3) have "filter (\<lambda>row. row \<noteq> []) rows = rows"
    by (auto simp: filter_id_conv)
  with assms show ?thesis
    by (simp add: DictReader_def dict_row_rectangular)
qed

lemma convert_no_records:
  assumes "\<not> exists fs (destination self) \<or> over_write self"
    and "open_read fs (source self) = Inr content"
    and "reader content = Inr rows"
    and "DictReader rows = []"
  shows "convert reader json_dump self fs =
           (Some (Exc RuntimeError (''Unexpected error during conversion: The source file ''
                    @ quoted (source self) @ '' is empty. Nothing to convert.'')), fs)"
  using assms by (auto simp: convert_def convert_try_def)

lemma convert_records:
  assumes "\<not> exists fs (destination self) \<or> over_write self"
    and "open_read fs (source self) = Inr content"
    and "reader content = Inr rows"
    and "DictReader rows \<noteq> []"
    and "write_fails fs (destination self) = None"
  shows "convert reader json_dump self fs =
           (None, fs\<lparr>files := (files fs)(destination self \<mapsto> json_dump (DictReader rows))\<rparr>)"
  using assms by (auto simp: convert_def convert_try_def open_write_def)

lemma plain_fs_read: "map_of fl p = Some content \<Longrightarrow> open_read (plain_fs fl) p = Inr content"
  by (simp add: open_read_def plain_fs_def)

lemma plain_fs_simps:
  "files (plain_fs fl) = map_of fl" "write_fails (plain_fs fl) p = None"
  "exists (plain_fs fl) p = (map_of fl p \<noteq> None)"
  by (simp_all add: plain_fs_def exists_def)

lemma convert_exists:
  "exists fs (destination self) \<Longrightarrow> \<not> over_write self \<Longrightarrow>
     \<exists>msg. convert reader json_dump self fs = (Some (Exc FileExistsError msg), fs)"
  by (simp add: convert_def)

lemma main_exists:
  "exists fs (arg_source args) \<Longrightarrow> lower (path_suffix (arg_source args)) = ''.json'' \<Longrightarrow>
   exists fs (output_fpath_of (arg_source args)) \<Longrightarrow> \<not> arg_overwrite args \<Longrightarrow>
     \<exists>msg. main json_load flat_dump flattener args fs = (Some (Exc FileExistsError msg), fs)"
  by (simp add: main_def Let_def)

lemma open_read_exists: "open_read fs p = Inr content \<Longrightarrow> exists fs p"
  by (auto simp: open_read_def exists_def split: option.splits)

lemma main_overwrite:
  assumes "arg_overwrite args" "lower (path_suffix (arg_source args)) = ''.json''"
    and "open_read fs (arg_source args) = Inr content"
    and "json_load content = Inr data"
    and "write_fails fs (output_fpath_of (arg_source args)) = None"
  shows "\<exists>flat_data. flatten flattener data [] = Inr flat_data
           \<and> main json_load flat_dump flattener args fs
               = (None, fs\<lparr>files := (files fs)(output_fpath_of (arg_source args)
                                                     \<mapsto> flat_dump flat_data)\<rparr>)"
proof -
  obtain flat_data where f: "flatten flattener data [] = Inr flat_data"
    using flatten_items_total [of flattener "top_items data" "[]" "[]"]
    by (auto simp: flatten_top_items)
  with assms open_read_exists [OF assms(3)] show ?thesis
    by (simp add: main_def main_try_def open_write_def Let_def)
qed

text \<open>
  Whenever \<^verbatim>\<open>--over-write\<close> is given the command fails before it converts, and no run of
  the command changes the content of a file that exists.
\<close>

lemma init_flag_given: "\<exists>e. init fs source_arg destination_arg (ArgStr s) = Inl e"
  by (simp add: init_def split: sum.splits)

lemma csv2json_main_flag_given:
  "opt_over_write cl = Some s \<Longrightarrow>
     \<exists>line. csv2json_main reader json_dump cl fs = (1, [line], fs)"
proof -
  assume flag: "opt_over_write cl = Some s"
  obtain e where "init fs (opt_source cl)
      (case opt_destination cl of None \<Rightarrow> ''output.json'' | Some d \<Rightarrow> d) (ArgStr s) = Inl e"
    using init_flag_given by blast
  with flag show ?thesis
    by (simp add: csv2json_main_def parse_args_def)
qed

lemma convert_keeps_existing:
  "exists fs (destination self) \<Longrightarrow> \<not> over_write self \<Longrightarrow>
     \<exists>e. convert reader json_dump self fs = (Some e, fs)"
  by (simp add: convert_def)

lemma init_over_write:
  "init fs source_arg destination_arg v = Inr self \<Longrightarrow> v = ArgBool (over_write self)"
  by (cases v) (auto simp: init_def split: sum.splits)

lemma csv2json_main_never_overwrites:
  assumes "files fs p = Some old"
  shows "files (snd (snd (csv2json_main reader json_dump cl fs))) p = Some old"
proof (cases "init fs (opt_source cl)
    (case opt_destination cl of None \<Rightarrow> ''output.json'' | Some d \<Rightarrow> d)
    (case opt_over_write cl of None \<Rightarrow> ArgBool False | Some s \<Rightarrow> ArgStr s)")
  case (Inl e)
  with assms show ?thesis
    by (simp add: csv2json_main_def parse_args_def)
next
  case (Inr self)
  from init_over_write [OF Inr] have ow: "\<not> over_write self"
    by (cases "opt_over_write cl") auto
  show ?thesis
  proof (cases "destination self = p")
    case True
    with assms have "exists fs (destination self)" by (simp add: exists_def)
    from convert_keeps_existing [OF this ow] obtain e where
      "convert reader json_dump self fs = (Some e, fs)" by blast
    with Inr assms show ?thesis
      by (simp add: csv2json_main_def parse_args_def)
  next
    case False
    obtain r fs' where c: "convert reader json_dump self fs = (r, fs')"
      by (cases "convert reader json_dump self fs")
    then have "files fs' p = files fs p"
      using False
      by (auto simp: convert_def convert_try_def open_write_def Let_def
               split: if_splits sum.splits option.splits)
    with Inr assms c show ?thesis
      by (cases r) (simp_all add: csv2json_main_def parse_args_def)
  qed
qed

section \<open>Properties of \<open>flatten_h\<close>\<close>
















































section \<open>Claims about \<open>flatten\<close>\<close>

text \<open>
  C1 (as the code behaves). With the default separators, flattening the top-level array
  \<^verbatim>\<open>[{"a":1}, {"a":2}]\<close> with an empty parent key gives \<^verbatim>\<open>{"0.a": 1, "1.a": 2}\<close>: the top-level
  indices take no separator, and the object key \<open>a\<close> below them is joined with the dict
  separator.
\<close>

theorem flatten_top_level_array:
  "flatten default_flattener
     (PList [PDict [(KStr ''a'', PScalar (1::int))], PDict [(KStr ''a'', PScalar 2)]]) []
   = Inr [(''0.a'', 1), (''1.a'', 2)]"
  by code_simp

text \<open>
  C1 as the specification states it, with the keys \<open>0__a\<close> and \<open>1__a\<close>, does not hold:
  the mapping returned has no key \<open>0__a\<close>.
\<close>

theorem flatten_top_level_array_counterexample:
  "flatten default_flattener
     (PList [PDict [(KStr ''a'', PScalar (1::int))], PDict [(KStr ''a'', PScalar 2)]]) []
   \<noteq> Inr [(''0__a'', 1), (''1__a'', 2)]
   \<and> flat_lookup (flatten default_flattener
     (PList [PDict [(KStr ''a'', PScalar (1::int))], PDict [(KStr ''a'', PScalar 2)]]) []) ''0__a''
     = None"
  by code_simp

text \<open>
  C4. With \<open>dict_sep = "."\<close> and \<open>list_sep = "__"\<close>, \<^verbatim>\<open>{"a": [1,2]}\<close> flattens to
  \<^verbatim>\<open>{"a__0": 1, "a__1": 2}\<close>; under a non-empty parent key the separator placed before a
  segment is the list separator for an integer index and the dict separator for an object key.
\<close>

theorem separator_disambiguation:
  "flatten \<lparr>dict_sep = ''.'', list_sep = ''__''\<rparr>
     (PDict [(KStr ''a'', PList [PScalar (1::int), PScalar 2])]) []
   = Inr [(''a__0'', 1), (''a__1'', 2)]
   \<and> cur_key_of self (c # parent_key) (KInt i) = (c # parent_key) @ list_sep self @ str_int i
   \<and> cur_key_of self (c # parent_key) (KStr s) = (c # parent_key) @ dict_sep self @ s"
proof -
  have "flatten \<lparr>dict_sep = ''.'', list_sep = ''__''\<rparr>
     (PDict [(KStr ''a'', PList [PScalar (1::int), PScalar 2])]) []
   = Inr [(''a__0'', 1), (''a__1'', 2)]"
    by code_simp
  then show ?thesis by (simp add: cur_key_of_def)
qed

lemma flatten_items_skip:
  assumes "flatten_items self [(k, v)] parent_key = Inr"
  shows "flatten_items self (pre @ (k, v) # post) parent_key flat_data
         = flatten_items self (pre @ post) parent_key flat_data"
proof -
  have "flatten_items self ((k, v) # post) parent_key fd = flatten_items self post parent_key fd" for fd
    using flatten_items_append [of self "[(k, v)]" post parent_key fd] assms by simp
  then show ?thesis
    by (simp add: flatten_items_append [of self pre] split: sum.splits)
qed

lemma dict_update_Nil: "dict_update d [] = d"
  by (simp add: dict_update_def)

text \<open>
  C7. Flattening \<^verbatim>\<open>{}\<close>, \<^verbatim>\<open>[]\<close> or a bare scalar with an empty parent key returns the empty
  mapping, and an empty object or empty array met by the loop at any depth (any parent key,
  any position among the items, any mapping accumulated so far) adds nothing to the result.
\<close>

theorem flatten_empty:
  "flatten self (PDict []) [] = Inr []
   \<and> flatten self (PList []) [] = Inr []
   \<and> flatten self (PScalar x) [] = Inr []
   \<and> flatten_items self (pre @ (k, PDict []) # post) parent_key flat_data
       = flatten_items self (pre @ post) parent_key flat_data
   \<and> flatten_items self (pre @ (k, PList []) # post) parent_key flat_data
       = flatten_items self (pre @ post) parent_key flat_data"
proof -
  have d: "flatten_items self [(k, PDict [])] parent_key = Inr"
    by (rule ext) (simp add: dict_update_Nil)
  have l: "flatten_items self [(k, PList [])] parent_key = Inr"
    by (rule ext) (simp add: dict_update_Nil enumerate_dict_def)
  show ?thesis
    by (simp add: flatten_items_skip [OF d] flatten_items_skip [OF l] enumerate_dict_def)
qed

lemma flatten_items_flat:
  "flatten_items self (map (\<lambda>(k, v). (KStr k, PScalar v)) m) [] flat_data
   = Inr (dict_update flat_data m)"
proof (induction m arbitrary: flat_data)
  case Nil
  show ?case by (simp add: dict_update_def)
next
  case (Cons p m)
  obtain k v where p: "p = (k, v)" by (cases p)
  show ?case
    by (simp add: p Cons.IH cur_key_of_def dict_update_def)
qed

text \<open>
  C8. A flat mapping \<open>m\<close> (string keys, scalar values; its keys distinct, as in any dict)
  is returned unchanged by \<open>flatten\<close> with an empty parent key, whatever the separators.
\<close>

theorem flatten_flat_idempotent:
  "distinct (map fst m) \<Longrightarrow>
     flatten self (PDict (map (\<lambda>(k, v). (KStr k, PScalar v)) m)) [] = Inr m"
  using dict_update_fresh [of "[]" m] by (simp add: flatten_items_flat)

theorem flatten_flat_idempotent_witness:
  "distinct (map fst [(''a'', 1::int), (''b'', 2)])
   \<and> flatten default_flattener (PDict [(KStr ''a'', PScalar 1), (KStr ''b'', PScalar 2)]) []
       = Inr [(''a'', 1::int), (''b'', 2)]"
  using flatten_flat_idempotent [of "[(''a'', 1::int), (''b'', 2)]" default_flattener]
  by simp

lemma scalar_item_path:
  "(k, PScalar x) \<in> set items \<Longrightarrow> ([k], x) \<in> set (items_paths items)"
  by (induction items rule: items_induct) (auto simp del: items_paths.simps simp add: items_paths_unfold)

text \<open>
  C9. With an empty parent key, a scalar directly under the top-level key or index \<open>k\<close> is
  stored under the key \<open>str(k)\<close>: the result has that key, and the key built for the path
  \<open>[k]\<close> is \<open>str(k)\<close> for every choice of the two separators.
\<close>

theorem top_level_key:
  assumes "(k, PScalar x) \<in> set (top_items data)"
  shows "\<exists>m. flatten self data [] = Inr m \<and> str_key k \<in> fst ` set m
             \<and> path_key self [] [k] = str_key k"
proof -
  obtain m where m: "flatten_items self (top_items data) [] [] = Inr m"
    using flatten_items_total by blast
  have "(path_key self [] [k], x) \<in> set (keyed_leaves self [] (items_paths (top_items data)))"
    using scalar_item_path [OF assms] by (force simp: keyed_leaves_def)
  then have "path_key self [] [k] \<in> fst ` set (rev (keyed_leaves self [] (items_paths (top_items data))))"
    by force
  then have "path_key self [] [k] \<in> dom (map_of m)"
    by (simp only: flatten_items_map_of [OF m] dom_map_add dom_map_of_conv_image_fst) simp
  then have "path_key self [] [k] \<in> fst ` set m"
    by (simp only: dom_map_of_conv_image_fst)
  moreover have "path_key self [] [k] = str_key k"
    by (simp add: cur_key_of_def)
  ultimately show ?thesis using m by (simp add: flatten_top_items)
qed

theorem top_level_key_witness:
  "(KInt 1, PScalar (7::int)) \<in> set (top_items (PList [PList [], PScalar 7]))
   \<and> (\<exists>m. flatten default_flattener (PList [PList [], PScalar (7::int)]) [] = Inr m
          \<and> str_key (KInt 1) \<in> fst ` set m
          \<and> path_key default_flattener [] [KInt 1] = str_key (KInt 1))"
proof -
  have h: "(KInt 1, PScalar (7::int)) \<in> set (top_items (PList [PList [], PScalar 7]))"
    by (simp add: enumerate_dict_def)
  from top_level_key [OF h, of default_flattener] h show ?thesis by blast
qed

text \<open>
  \<open>flatten\<close> is a total function, and with an empty parent key it returns a mapping
  (no error; the keys of the result are distinct) for every tree.
\<close>

lemma flatten_returns_mapping:
  "\<exists>m. flatten self data [] = Inr m \<and> distinct (map fst m)"
proof -
  obtain m where m: "flatten_items self (top_items data) [] [] = Inr m"
    using flatten_items_total by blast
  from flatten_items_distinct [OF m] m show ?thesis
    by (simp add: flatten_top_items)
qed


lemma plain_top_items:
  assumes "plain_json S data" "S \<inter> digit_chars = {}"
  shows "segs_ok S (top_items data) \<and> plain_items S (top_items data)"
proof (cases data)
  case (PScalar x)
  then show ?thesis by (simp add: segs_ok_def)
next
  case (PDict d)
  with assms(1) show ?thesis by (simp add: segs_ok_dict)
next
  case (PList xs)
  with assms show ?thesis by (simp add: segs_ok_enumerate)
qed

lemma leaf_keys_paths:
  "leaf_keys self parent_key items = map (path_key self parent_key) (map fst (items_paths items))"
  by (simp add: leaf_keys_def keyed_leaves_def comp_def case_prod_unfold)

text \<open>
  C2 (as the code behaves). For every tree, the mapping returned by \<open>flatten\<close> with an
  empty parent key holds, under each key, the scalar of a leaf path that builds this key:
  the last such leaf in traversal order. When both separators are non-empty and without
  digits, and the tree is a JSON tree whose object keys are non-empty and contain no
  separator character, distinct leaf paths build distinct keys, and the mapping has
  exactly one entry per leaf, in traversal order.
\<close>

theorem flatten_leaf_keys:
  "\<exists>m. flatten self data [] = Inr m
     \<and> map_of m = map_of (rev (keyed_leaves self [] (tree_leaves data)))
     \<and> (seps_ok self \<and> plain_json (sep_chars self) data \<longrightarrow>
          inj_on (path_key self []) (fst ` set (tree_leaves data))
          \<and> m = keyed_leaves self [] (tree_leaves data))"
proof -
  obtain m where m: "flatten_items self (top_items data) [] [] = Inr m"
    using flatten_items_total by blast
  have a: "map_of m = map_of (rev (keyed_leaves self [] (tree_leaves data)))"
    using flatten_items_map_of [OF m] by (simp add: tree_leaves_def)
  have b: "inj_on (path_key self []) (fst ` set (tree_leaves data))
           \<and> m = keyed_leaves self [] (tree_leaves data)"
    if h: "seps_ok self" "plain_json (sep_chars self) data"
  proof -
    from h have "segs_ok (sep_chars self) (top_items data)"
      "plain_items (sep_chars self) (top_items data)"
      using plain_top_items [of "sep_chars self" data] by (simp_all add: seps_ok_def)
    from leaf_keys_distinct [OF h(1) this, of "[]"]
    have d: "distinct (leaf_keys self [] (top_items data))" by simp
    then have "distinct (map (path_key self []) (map fst (tree_leaves data)))"
      by (simp only: leaf_keys_paths tree_leaves_def)
    then have "inj_on (path_key self []) (set (map fst (tree_leaves data)))"
      by (blast dest: iffD1 [OF distinct_map])
    moreover from d have "distinct (map fst [] @ leaf_keys self [] (top_items data))" by simp
    from flatten_items_exact [OF this] m have "m = keyed_leaves self [] (tree_leaves data)"
      by (simp add: tree_leaves_def)
    ultimately show ?thesis by simp
  qed
  from m a b show ?thesis by (simp add: flatten_top_items)
qed

theorem flatten_leaf_keys_witness:
  "seps_ok default_flattener
   \<and> plain_json (sep_chars default_flattener)
       (PDict [(KStr ''a'', PList [PScalar (1::int), PScalar 2]), (KStr ''b'', PScalar 3)])
   \<and> flatten default_flattener
       (PDict [(KStr ''a'', PList [PScalar (1::int), PScalar 2]), (KStr ''b'', PScalar 3)]) []
       = Inr [(''a__0'', 1), (''a__1'', 2), (''b'', 3)]
   \<and> inj_on (path_key default_flattener [])
       (fst ` set (tree_leaves
          (PDict [(KStr ''a'', PList [PScalar (1::int), PScalar 2]), (KStr ''b'', PScalar 3)])))"
proof -
  let ?D = "PDict [(KStr ''a'', PList [PScalar (1::int), PScalar 2]), (KStr ''b'', PScalar 3)]"
  have h: "seps_ok default_flattener \<and> plain_json (sep_chars default_flattener) ?D"
    by code_simp
  have k: "keyed_leaves default_flattener [] (tree_leaves ?D)
           = [(''a__0'', 1), (''a__1'', 2), (''b'', 3)]"
    by code_simp
  from flatten_leaf_keys [of default_flattener ?D] h k show ?thesis by auto
qed

text \<open>
  C2 as the specification states it, for any separators and any tree, does not hold:
  with the default separators the leaf paths \<open>["a.b"]\<close> and \<open>["a", "b"]\<close> of
  \<^verbatim>\<open>{"a.b": 1, "a": {"b": 2}}\<close> build the same key, and the result keeps one of the two leaves.
\<close>

theorem leaf_keys_collide:
  "plain_json {}
     (PDict [(KStr ''a.b'', PScalar (1::int)), (KStr ''a'', PDict [(KStr ''b'', PScalar 2)])])
   \<and> tree_leaves
       (PDict [(KStr ''a.b'', PScalar (1::int)), (KStr ''a'', PDict [(KStr ''b'', PScalar 2)])])
       = [([KStr ''a.b''], 1), ([KStr ''a'', KStr ''b''], 2)]
   \<and> path_key default_flattener [] [KStr ''a.b'']
       = path_key default_flattener [] [KStr ''a'', KStr ''b'']
   \<and> flatten default_flattener
       (PDict [(KStr ''a.b'', PScalar (1::int)), (KStr ''a'', PDict [(KStr ''b'', PScalar 2)])]) []
       = Inr [(''a.b'', 2)]"
  by code_simp


section \<open>Claims about the two tools\<close>

text \<open>
  C3 (what the code does at the failing input). For a source that holds only the header
  row \<open>name,age\<close>, \<^verbatim>\<open>convert\<close> raises the \<^verbatim>\<open>ValueError\<close> for empty input inside its own
  \<^verbatim>\<open>try\<close> block, where the last \<^verbatim>\<open>except Exception\<close> clause catches it: the caller
  receives the generic \<^verbatim>\<open>RuntimeError\<close> wrapper, not the error for empty input.
\<close>

theorem convert_header_only:
  "convert plain_reader plain_json_dump
     \<lparr>source = ''data.csv'', destination = ''out.json'', over_write = False\<rparr>
     (plain_fs [(''data.csv'', ''name,age'' @ [CHR 0x0A])])
   = (Some (Exc RuntimeError (''Unexpected error during conversion: The source file ''
              @ quoted ''data.csv'' @ '' is empty. Nothing to convert.'')),
      plain_fs [(''data.csv'', ''name,age'' @ [CHR 0x0A])])"
proof -
  let ?self = "\<lparr>source = ''data.csv'', destination = ''out.json'', over_write = False\<rparr>"
  let ?fs = "plain_fs [(''data.csv'', ''name,age'' @ [CHR 0x0A])]"
  have h1: "\<not> exists ?fs (destination ?self) \<or> over_write ?self"
    by (simp add: plain_fs_simps)
  have h2: "open_read ?fs (source ?self) = Inr (''name,age'' @ [CHR 0x0A])"
    by (simp add: plain_fs_read)
  have h3: "plain_reader (''name,age'' @ [CHR 0x0A]) = Inr [[''name'', ''age'']]"
    by code_simp
  have h4: "DictReader [[''name'', ''age'']] = []"
    by code_simp
  from convert_no_records [where reader = plain_reader and json_dump = plain_json_dump,
      OF h1 h2 h3 h4]
  show ?thesis by simp
qed

text \<open>
  C5. When the source can be read and the destination written, a CSV source whose header
  has distinct names and whose data rows have one cell per name is converted to one object
  per row, with the cells kept as strings and the fields in header order; the header
  \<open>name,age\<close> with the row \<open>alice,30\<close> gives \<^verbatim>\<open>[{"name": "alice", "age": "30"}]\<close>.
\<close>

theorem csv_end_to_end:
  assumes "\<not> exists fs (destination self) \<or> over_write self"
    and "open_read fs (source self) = Inr content"
    and "write_fails fs (destination self) = None"
    and "reader content = Inr (header # rows)"
    and "distinct header" "header \<noteq> []" "rows \<noteq> []"
    and "\<forall>r \<in> set rows. length r = length header"
  shows "convert reader json_dump self fs =
           (None, fs\<lparr>files := (files fs)(destination self \<mapsto>
                    json_dump (map (\<lambda>r. zip (map Some header) (map Cell r)) rows))\<rparr>)"
proof -
  have d: "DictReader (header # rows) = map (\<lambda>r. zip (map Some header) (map Cell r)) rows"
    using assms(5,6,8) by (rule DictReader_rectangular)
  with assms(7) have "DictReader (header # rows) \<noteq> []" by simp
  from convert_records [where reader = reader and rows = "header # rows" and json_dump = json_dump,
      OF assms(1,2,4) this assms(3)] d
  show ?thesis by simp
qed

theorem csv_end_to_end_witness:
  "plain_reader (''name,age'' @ [CHR 0x0A] @ ''alice,30'' @ [CHR 0x0A])
     = Inr [[''name'', ''age''], [''alice'', ''30'']]
   \<and> convert plain_reader plain_json_dump
       \<lparr>source = ''people.csv'', destination = ''people.json'', over_write = False\<rparr>
       (plain_fs [(''people.csv'', ''name,age'' @ [CHR 0x0A] @ ''alice,30'' @ [CHR 0x0A])])
     = (None, (plain_fs [(''people.csv'', ''name,age'' @ [CHR 0x0A] @ ''alice,30'' @ [CHR 0x0A])])
          \<lparr>files := (map_of [(''people.csv'', ''name,age'' @ [CHR 0x0A] @ ''alice,30'' @ [CHR 0x0A])])
             (''people.json'' \<mapsto>
                plain_json_dump [[(Some ''name'', Cell ''alice''), (Some ''age'', Cell ''30'')]])\<rparr>)
   \<and> plain_json_dump [[(Some ''name'', Cell ''alice''), (Some ''age'', Cell ''30'')]]
     = ''['' @ nl 2 @ ''{'' @ nl 4 @ dq ''name'' @ '': '' @ dq ''alice'' @ '','' @ nl 4
       @ dq ''age'' @ '': '' @ dq ''30'' @ nl 2 @ ''}'' @ nl 0 @ '']''"
proof -
  let ?self = "\<lparr>source = ''people.csv'', destination = ''people.json'', over_write = False\<rparr>"
  let ?content = "''name,age'' @ [CHR 0x0A] @ ''alice,30'' @ [CHR 0x0A]"
  let ?fs = "plain_fs [(''people.csv'', ?content)]"
  have h1: "\<not> exists ?fs (destination ?self) \<or> over_write ?self"
    by (simp add: plain_fs_simps)
  have h2: "open_read ?fs (source ?self) = Inr ?content"
    by (simp add: plain_fs_read)
  have h3: "write_fails ?fs (destination ?self) = None"
    by (simp add: plain_fs_simps)
  have h4: "plain_reader ?content = Inr ([''name'', ''age''] # [[''alice'', ''30'']])"
    by code_simp
  have h5: "distinct [''name'', ''age'']" "[''name'', ''age''] \<noteq> []" "[[''alice'', ''30'']] \<noteq> []"
    "\<forall>r \<in> set [[''alice'', ''30'']]. length r = length [''name'', ''age'']"
    by simp_all
  have t: "plain_json_dump [[(Some ''name'', Cell ''alice''), (Some ''age'', Cell ''30'')]]
     = ''['' @ nl 2 @ ''{'' @ nl 4 @ dq ''name'' @ '': '' @ dq ''alice'' @ '','' @ nl 4
       @ dq ''age'' @ '': '' @ dq ''30'' @ nl 2 @ ''}'' @ nl 0 @ '']''"
    by code_simp
  from csv_end_to_end [where reader = plain_reader and json_dump = plain_json_dump,
      OF h1 h2 h3 h4 h5] h4 t
  show ?thesis by (simp add: plain_fs_simps)
qed

text \<open>
  C6 (what the code does at the failing input). Run as
  \<^verbatim>\<open>csv2json.py -s data.csv -d out.json --over-write True\<close> over an existing
  \<^verbatim>\<open>out.json\<close>, the CSV tool does not replace the file: argparse hands the constructor the
  string \<^verbatim>\<open>'True'\<close>, \<^verbatim>\<open>_set_over_write\<close> raises \<^verbatim>\<open>TypeError\<close>, and the command prints the
  problem and exits with status 1, the destination keeping its old content.
\<close>

theorem csv2json_over_write_flag_rejected:
  "csv2json_main plain_reader plain_json_dump
     \<lparr>opt_source = ''data.csv'', opt_destination = Some ''out.json'', opt_over_write = Some ''True''\<rparr>
     (plain_fs [(''data.csv'', ''name,age'' @ [CHR 0x0A] @ ''alice,30''), (''out.json'', ''old'')])
   = (1,
      [''Problem: Invalid type for '' @ quoted ''over_write'' @ '': expected '' @ quoted ''bool''
       @ '', got '' @ quoted ''str'' @ ''.''],
      plain_fs [(''data.csv'', ''name,age'' @ [CHR 0x0A] @ ''alice,30''), (''out.json'', ''old'')])
   \<and> files (plain_fs [(''data.csv'', ''name,age'' @ [CHR 0x0A] @ ''alice,30''), (''out.json'', ''old'')])
       ''out.json'' = Some ''old''"
proof -
  have s: "lower (path_suffix ''data.csv'') = ''.csv''" by code_simp
  have d: "path_suffix ''out.json'' = ''.json''" by code_simp
  have l: "lower ''.json'' = ''.json''" by code_simp
  show ?thesis
    by (simp add: csv2json_main_def parse_args_def init_def set_source_def set_destination_def
                  s d l plain_fs_simps)
qed

text \<open>
  Called with a boolean flag, \<^verbatim>\<open>convert\<close> and the flattener's \<^verbatim>\<open>main\<close> (whose \<^verbatim>\<open>-w\<close> is a
  \<^verbatim>\<open>store_true\<close> option) do gate on it: an existing destination without the flag fails with
  \<^verbatim>\<open>FileExistsError\<close> and leaves every file as it was (for \<^verbatim>\<open>main\<close>, once the source
  exists and ends in \<^verbatim>\<open>.json\<close>); with the flag, a source that can be read and parsed
  and a destination that can be opened for writing give the new output.
\<close>

lemma overwrite_gating:
  "(exists fs (destination self) \<and> \<not> over_write self \<longrightarrow>
      (\<exists>msg. convert reader json_dump self fs = (Some (Exc FileExistsError msg), fs)))
   \<and> (exists fs (arg_source args) \<and> lower (path_suffix (arg_source args)) = ''.json''
        \<and> exists fs (output_fpath_of (arg_source args)) \<and> \<not> arg_overwrite args \<longrightarrow>
      (\<exists>msg. main json_load flat_dump flattener args fs = (Some (Exc FileExistsError msg), fs)))
   \<and> (over_write self \<and> open_read fs (source self) = Inr content \<and> reader content = Inr rows
        \<and> DictReader rows \<noteq> [] \<and> write_fails fs (destination self) = None \<longrightarrow>
      convert reader json_dump self fs
        = (None, fs\<lparr>files := (files fs)(destination self \<mapsto> json_dump (DictReader rows))\<rparr>))
   \<and> (arg_overwrite args \<and> lower (path_suffix (arg_source args)) = ''.json''
        \<and> open_read fs (arg_source args) = Inr json_text \<and> json_load json_text = Inr data
        \<and> write_fails fs (output_fpath_of (arg_source args)) = None \<longrightarrow>
      (\<exists>flat_data. flatten flattener data [] = Inr flat_data
         \<and> main json_load flat_dump flattener args fs
             = (None, fs\<lparr>files := (files fs)(output_fpath_of (arg_source args)
                                                   \<mapsto> flat_dump flat_data)\<rparr>)))"
proof (intro conjI impI)
  assume "exists fs (destination self) \<and> \<not> over_write self"
  then show "\<exists>msg. convert reader json_dump self fs = (Some (Exc FileExistsError msg), fs)"
    by (simp add: convert_exists)
next
  assume "exists fs (arg_source args) \<and> lower (path_suffix (arg_source args)) = ''.json''
        \<and> exists fs (output_fpath_of (arg_source args)) \<and> \<not> arg_overwrite args"
  then show "\<exists>msg. main json_load flat_dump flattener args fs = (Some (Exc FileExistsError msg), fs)"
    by (simp add: main_exists)
next
  assume "over_write self \<and> open_read fs (source self) = Inr content \<and> reader content = Inr rows
        \<and> DictReader rows \<noteq> [] \<and> write_fails fs (destination self) = None"
  then show "convert reader json_dump self fs
        = (None, fs\<lparr>files := (files fs)(destination self \<mapsto> json_dump (DictReader rows))\<rparr>)"
    using convert_records [where reader = reader and rows = rows and json_dump = json_dump]
    by blast
next
  assume "arg_overwrite args \<and> lower (path_suffix (arg_source args)) = ''.json''
        \<and> open_read fs (arg_source args) = Inr json_text \<and> json_load json_text = Inr data
        \<and> write_fails fs (output_fpath_of (arg_source args)) = None"
  then show "\<exists>flat_data. flatten flattener data [] = Inr flat_data
         \<and> main json_load flat_dump flattener args fs
             = (None, fs\<lparr>files := (files fs)(output_fpath_of (arg_source args)
                                                   \<mapsto> flat_dump flat_data)\<rparr>)"
    using main_overwrite [where json_load = json_load and flat_dump = flat_dump] by blast
qed


lemma overwrite_gating_runs:
  "(\<exists>msg. convert plain_reader plain_json_dump
             \<lparr>source = ''data.csv'', destination = ''out.json'', over_write = False\<rparr>
             (plain_fs [(''data.csv'', ''name,age'' @ [CHR 0x0A] @ ''alice,30''), (''out.json'', ''old'')])
           = (Some (Exc FileExistsError msg),
              plain_fs [(''data.csv'', ''name,age'' @ [CHR 0x0A] @ ''alice,30''), (''out.json'', ''old'')]))
   \<and> (\<exists>msg. main (load_as (PDict [(KStr ''a'', PList [PScalar 1, PScalar 2])])) plain_flat_dump
             default_flattener \<lparr>arg_source = ''d/in.json'', arg_overwrite = False\<rparr>
             (plain_fs [(''d/in.json'', ''{}''), (''d/flat_in.json'', ''old'')])
           = (Some (Exc FileExistsError msg),
              plain_fs [(''d/in.json'', ''{}''), (''d/flat_in.json'', ''old'')]))
   \<and> convert plain_reader plain_json_dump
             \<lparr>source = ''data.csv'', destination = ''out.json'', over_write = True\<rparr>
             (plain_fs [(''data.csv'', ''name,age'' @ [CHR 0x0A] @ ''alice,30''), (''out.json'', ''old'')])
       = (None,
          (plain_fs [(''data.csv'', ''name,age'' @ [CHR 0x0A] @ ''alice,30''), (''out.json'', ''old'')])
          \<lparr>files := (map_of [(''data.csv'', ''name,age'' @ [CHR 0x0A] @ ''alice,30''), (''out.json'', ''old'')])
             (''out.json'' \<mapsto>
                plain_json_dump [[(Some ''name'', Cell ''alice''), (Some ''age'', Cell ''30'')]])\<rparr>)
   \<and> main (load_as (PDict [(KStr ''a'', PList [PScalar 1, PScalar 2])])) plain_flat_dump
             default_flattener \<lparr>arg_source = ''d/in.json'', arg_overwrite = True\<rparr>
             (plain_fs [(''d/in.json'', ''{}''), (''d/flat_in.json'', ''old'')])
       = (None,
          (plain_fs [(''d/in.json'', ''{}''), (''d/flat_in.json'', ''old'')])
          \<lparr>files := (map_of [(''d/in.json'', ''{}''), (''d/flat_in.json'', ''old'')])
             (''d/flat_in.json'' \<mapsto> plain_flat_dump [(''a__0'', 1), (''a__1'', 2)])\<rparr>)"
proof -
  let ?csv = "''name,age'' @ [CHR 0x0A] @ ''alice,30''"
  let ?fsC = "plain_fs [(''data.csv'', ?csv), (''out.json'', ''old'')]"
  let ?selfF = "\<lparr>source = ''data.csv'', destination = ''out.json'', over_write = False\<rparr>"
  let ?selfT = "\<lparr>source = ''data.csv'', destination = ''out.json'', over_write = True\<rparr>"
  let ?fsJ = "plain_fs [(''d/in.json'', ''{}''), (''d/flat_in.json'', ''old'')]"
  let ?argsF = "\<lparr>arg_source = ''d/in.json'', arg_overwrite = False\<rparr>"
  let ?argsT = "\<lparr>arg_source = ''d/in.json'', arg_overwrite = True\<rparr>"
  let ?D = "PDict [(KStr ''a'', PList [PScalar (1::int), PScalar 2])]"
  have suffix: "lower (path_suffix ''d/in.json'') = ''.json''"
    by code_simp
  have out: "output_fpath_of ''d/in.json'' = ''d/flat_in.json''"
    by code_simp
  have a: "exists ?fsC (destination ?selfF) \<and> \<not> over_write ?selfF"
    by (simp add: plain_fs_simps)
  have b: "exists ?fsJ (arg_source ?argsF) \<and> lower (path_suffix (arg_source ?argsF)) = ''.json''
        \<and> exists ?fsJ (output_fpath_of (arg_source ?argsF)) \<and> \<not> arg_overwrite ?argsF"
    by (simp add: plain_fs_simps suffix out)
  have rd: "plain_reader ?csv = Inr [[''name'', ''age''], [''alice'', ''30'']]"
    by code_simp
  have dr: "DictReader [[''name'', ''age''], [''alice'', ''30'']]
            = [[(Some ''name'', Cell ''alice''), (Some ''age'', Cell ''30'')]]"
    by code_simp
  have c: "over_write ?selfT \<and> open_read ?fsC (source ?selfT) = Inr ?csv
        \<and> plain_reader ?csv = Inr [[''name'', ''age''], [''alice'', ''30'']]
        \<and> DictReader [[''name'', ''age''], [''alice'', ''30'']] \<noteq> []
        \<and> write_fails ?fsC (destination ?selfT) = None"
    using rd dr by (simp add: plain_fs_simps plain_fs_read)
  have d: "arg_overwrite ?argsT \<and> lower (path_suffix (arg_source ?argsT)) = ''.json''
        \<and> open_read ?fsJ (arg_source ?argsT) = Inr ''{}'' \<and> load_as ?D ''{}'' = Inr ?D
        \<and> write_fails ?fsJ (output_fpath_of (arg_source ?argsT)) = None"
    by (simp add: plain_fs_simps plain_fs_read suffix load_as_def)
  have fl: "flatten default_flattener ?D [] = Inr [(''a__0'', 1), (''a__1'', 2)]"
    by code_simp
  note g1 = overwrite_gating [where reader = plain_reader and json_dump = plain_json_dump,
      THEN conjunct1, THEN mp, OF a]
  note g2 = overwrite_gating [where json_load = "load_as ?D" and flat_dump = plain_flat_dump
        and flattener = default_flattener,
      THEN conjunct2, THEN conjunct1, THEN mp, OF b]
  note g3 = overwrite_gating [where reader = plain_reader and json_dump = plain_json_dump,
      THEN conjunct2, THEN conjunct2, THEN conjunct1, THEN mp, OF c]
  note g4 = overwrite_gating [where json_load = "load_as ?D" and flat_dump = plain_flat_dump
        and flattener = default_flattener,
      THEN conjunct2, THEN conjunct2, THEN conjunct2, THEN mp, OF d]
  from g4 fl have g4': "main (load_as ?D) plain_flat_dump default_flattener ?argsT ?fsJ
       = (None, ?fsJ\<lparr>files := (files ?fsJ)(output_fpath_of (arg_source ?argsT)
                                     \<mapsto> plain_flat_dump [(''a__0'', 1), (''a__1'', 2)])\<rparr>)"
    by auto
  from g1 g2 g3 g4' show ?thesis
    by (simp add: plain_fs_simps dr out)
qed

section \<open>Termination and the input of \<open>flatten\<close>\<close>




end
